theory Spec2Isabelle
  imports Main "HOL-Library.AList" "HOL-Library.Word"
begin

section \<open>The TSO allocator manager (server/tso/allocator_manager.go)\<close>

text \<open>
  The manager keeps a registry of allocator groups keyed by their dc-location, sets
  allocators up, campaigns for the leadership of Local allocators, updates every allocator
  on a tick and forwards timestamp requests. The allocators, the election leaderships,
  contexts and the clock live outside the file: they are handles here, and what their
  methods answer is a parameter of the model (the record \<open>env\<close> below), read from and
  written to an abstract world \<open>'w\<close>. Every call that leaves the file, and every lock
  operation, is appended to a trace, so that the order of the calls can be stated.
  Log lines are left out.
\<close>

subsection \<open>Handles and values\<close>

text \<open>A Go pointer: \<open>nil\<close> or the address of a value.\<close>

datatype 'a ptr = nil | Ptr 'a

text \<open>What a Go call gives back: it returns, or it panics (here: a nil dereference).\<close>

datatype 'a outcome = Return 'a | Panic

text \<open>
  \<open>*election.Leadership\<close>, \<open>*member.Member\<close>, \<open>context.Context\<close> and
  \<open>context.CancelFunc\<close> are references to live objects, told apart by their identity.
  The nil context and the nil cancel function are not modelled.
\<close>

datatype Leadership = Leadership nat
datatype Member = Member nat
datatype Context = Context nat
datatype CancelFunc = CancelFunc nat

text \<open>
  The two allocator types are declared in other files of the package. A handle records
  the arguments its constructor was called with (\<open>time.Duration\<close> is an integer, the
  \<open>maxResetTSGap\<close> closure a function of no argument); the allocator's own state is part
  of the world.
\<close>

datatype GlobalTSOAllocator =
  NewGlobalTSOAllocator Leadership string int "unit \<Rightarrow> int"

datatype LocalTSOAllocator =
  NewLocalTSOAllocator Member Leadership string string int "unit \<Rightarrow> int"

text \<open>The field \<open>dcLocation\<close> of a Local allocator: the fourth constructor argument.\<close>

fun allocator_dcLocation :: "LocalTSOAllocator \<Rightarrow> string" where
  "allocator_dcLocation (NewLocalTSOAllocator m l p dc si gap) = dc"

text \<open>A value of the interface \<open>Allocator\<close> is one of the two.\<close>

datatype Allocator = GlobalAllocator GlobalTSOAllocator | LocalAllocator LocalTSOAllocator

text \<open>
  The type assertion \<open>allocator.(*LocalTSOAllocator)\<close> with its second result dropped:
  the pointer when the dynamic type matches, nil otherwise.
\<close>

fun as_LocalTSOAllocator :: "Allocator \<Rightarrow> LocalTSOAllocator ptr" where
  "as_LocalTSOAllocator (LocalAllocator a) = Ptr a"
| "as_LocalTSOAllocator (GlobalAllocator a) = nil"

text \<open>\<open>pdpb.Timestamp\<close> with its zero value, and the errors that travel through the file.\<close>

record Timestamp =
  Physical :: int
  Logical :: int

definition Timestamp_zero :: Timestamp where
  "Timestamp_zero = \<lparr>Physical = 0, Logical = 0\<rparr>"

datatype error =
  ErrGetAllocator string  \<comment> \<open>\<open>errs.ErrGetAllocator.FastGenByArgs(msg)\<close>\<close>
| ErrOther string  \<comment> \<open>any other error value, by its text\<close>

record allocatorGroup =
  dcLocation :: string
  parentCtx :: Context
  parentCancel :: CancelFunc
  leadership :: Leadership
  allocator :: Allocator

text \<open>
  The Go map \<open>allocatorGroups\<close> is an association list: \<open>map_of\<close> is the lookup,
  \<open>AList.update\<close> the assignment \<open>m[k] = v\<close>, the list order the order in which
  \<open>range\<close> visits the entries (Go leaves it open; nothing below depends on it). A map
  has one entry per key: the list's keys are distinct (\<open>registry_ok\<close>).
\<close>

record AllocatorManager =
  allocatorGroups :: "(string \<times> allocatorGroup ptr) list"
  member_f :: Member
  rootPath :: string
  saveInterval :: int
  maxResetTSGap :: "unit \<Rightarrow> int"

definition registry_ok :: "AllocatorManager \<Rightarrow> bool" where
  "registry_ok m = distinct (map fst (allocatorGroups m))"

definition NewAllocatorManager ::
  "Member \<Rightarrow> string \<Rightarrow> int \<Rightarrow> (unit \<Rightarrow> int) \<Rightarrow> AllocatorManager" where
  "NewAllocatorManager m rp si gap =
     \<lparr>allocatorGroups = [], member_f = m, rootPath = rp, saveInterval = si,
      maxResetTSGap = gap\<rparr>"

subsection \<open>Calls that leave the file\<close>

datatype goroutine =
  go_allocatorLeaderLoop Context "LocalTSOAllocator ptr"
| go_KeepAllocatorLeader Context LocalTSOAllocator

datatype event =
  am_Lock | am_Unlock | am_RLock | am_RUnlock | wg_Done
| allocator_Initialize Allocator
| allocator_UpdateTSO Allocator
| allocator_GenerateTSO Allocator "32 word"
| allocator_Reset Allocator
| leadership_Check Leadership
| leadership_Reset Leadership
| allocator_CampaignAllocatorLeader LocalTSOAllocator int
| allocator_EnableAllocatorLeader LocalTSOAllocator
| allocator_IsStillAllocatorLeader LocalTSOAllocator
| context_WithCancel Context
| call_CancelFunc CancelFunc
| time_Sleep int
| time_NewTicker int
| ticker_Stop
| go goroutine

text \<open>The two cases of the \<open>select\<close> in the leader's tick loop.\<close>

datatype select_case = leaderTicker_C | ctx_Done

text \<open>
  What the outside answers. \<open>GlobalDCLocation\<close> is the constant of package config;
  \<open>Done c w\<close> says whether the channel \<open>c.Done()\<close> is closed in world \<open>w\<close>;
  \<open>select_tick\<close> is the scheduler's choice when the tick loop blocks.
\<close>

record 'w env =
  GlobalDCLocation :: string
  Initialize :: "Allocator \<Rightarrow> 'w \<Rightarrow> error option \<times> 'w"
  UpdateTSO :: "Allocator \<Rightarrow> 'w \<Rightarrow> error option \<times> 'w"
  GenerateTSO :: "Allocator \<Rightarrow> 32 word \<Rightarrow> 'w \<Rightarrow> (Timestamp \<times> error option) \<times> 'w"
  Reset :: "Allocator \<Rightarrow> 'w \<Rightarrow> 'w"
  Check :: "Leadership \<Rightarrow> 'w \<Rightarrow> bool \<times> 'w"
  Leadership_Reset :: "Leadership \<Rightarrow> 'w \<Rightarrow> 'w"
  CampaignAllocatorLeader :: "LocalTSOAllocator \<Rightarrow> int \<Rightarrow> 'w \<Rightarrow> error option \<times> 'w"
  EnableAllocatorLeader :: "LocalTSOAllocator \<Rightarrow> 'w \<Rightarrow> 'w"
  IsStillAllocatorLeader :: "LocalTSOAllocator \<Rightarrow> 'w \<Rightarrow> bool \<times> 'w"
  Done :: "Context \<Rightarrow> 'w \<Rightarrow> bool"
  WithCancel :: "Context \<Rightarrow> 'w \<Rightarrow> (Context \<times> CancelFunc) \<times> 'w"
  cancel :: "CancelFunc \<Rightarrow> 'w \<Rightarrow> 'w"
  select_tick :: "Context \<Rightarrow> 'w \<Rightarrow> select_case \<times> 'w"

text \<open>The running state: the manager, the world, and the calls made so far.\<close>

record 'w st =
  manager :: AllocatorManager
  world :: 'w
  trace :: "event list"

definition emit :: "event \<Rightarrow> 'w st \<Rightarrow> 'w st" where
  "emit e s = s\<lparr>trace := trace s @ [e]\<rparr>"

definition call :: "event \<Rightarrow> ('w \<Rightarrow> 'r \<times> 'w) \<Rightarrow> 'w st \<Rightarrow> 'r \<times> 'w st" where
  "call e f s = (case f (world s) of (r, w) \<Rightarrow> (r, s\<lparr>world := w, trace := trace s @ [e]\<rparr>))"

definition call0 :: "event \<Rightarrow> ('w \<Rightarrow> 'w) \<Rightarrow> 'w st \<Rightarrow> 'w st" where
  "call0 e f s = s\<lparr>world := f (world s), trace := trace s @ [e]\<rparr>"

definition leaderTickInterval :: int where
  "leaderTickInterval = 50 * 1000000"

definition defaultAllocatorLeaderLease :: int where
  "defaultAllocatorLeaderLease = 3"

subsection \<open>\<open>path.Join\<close> of the Go standard library\<close>

text \<open>
  \<open>path.Clean\<close> walks the path byte by byte and writes the cleaned path to a buffer:
  an empty element and a \<open>.\<close> element are dropped, a \<open>..\<close> element removes the
  element written last (down to the index \<open>dotdot\<close>, past which nothing may be removed),
  any other element is copied, with a slash before it when it is not the first.
  \<open>Clean_step\<close> is one turn of the loop at the byte \<open>c\<close> with \<open>cs\<close> still to read and
  \<open>out\<close> the buffer; it gives what is left to read, the buffer and \<open>dotdot\<close>.
\<close>

function backtrack :: "string \<Rightarrow> nat \<Rightarrow> nat \<Rightarrow> nat" where
  "backtrack out dotdot w =
     (if w > dotdot \<and> out ! w \<noteq> CHR ''/'' then backtrack out dotdot (w - 1) else w)"
  by pat_completeness auto
termination
  by (relation "measure (\<lambda>(out, dotdot, w). w)") auto

declare backtrack.simps [simp del]

definition Clean_step ::
  "bool \<Rightarrow> char \<Rightarrow> string \<Rightarrow> string \<Rightarrow> nat \<Rightarrow> string \<times> string \<times> nat" where
  "Clean_step rooted c cs out dotdot =
     (if c = CHR ''/'' then (cs, out, dotdot)
      else if c = CHR ''.'' \<and> (cs = [] \<or> hd cs = CHR ''/'') then (cs, out, dotdot)
      else if c = CHR ''.'' \<and> hd cs = CHR ''.'' \<and> (tl cs = [] \<or> hd (tl cs) = CHR ''/'') then
        (if length out > dotdot then
           (tl cs, take (backtrack out dotdot (length out - 1)) out, dotdot)
         else if \<not> rooted then
           (let out' = (if length out > 0 then out @ ''/'' else out) @ ''..''
            in (tl cs, out', length out'))
         else (tl cs, out, dotdot))
      else
        (let out' = (if rooted \<and> length out \<noteq> 1 \<or> \<not> rooted \<and> length out \<noteq> 0
                     then out @ ''/'' else out)
         in (dropWhile (\<lambda>x. x \<noteq> CHR ''/'') cs,
             out' @ c # takeWhile (\<lambda>x. x \<noteq> CHR ''/'') cs, dotdot)))"

lemma Clean_step_shorter: "length (fst (Clean_step rooted c cs out dotdot)) \<le> length cs"
  unfolding Clean_step_def Let_def
  apply (simp only: fst_conv if_distrib [of fst] if_distrib [of length])
  apply (auto simp: length_dropWhile_le)
  done

text \<open>The loop, from the bytes still to read: it gives the buffer and \<open>dotdot\<close> at its end.\<close>

function Clean_loop :: "bool \<Rightarrow> string \<Rightarrow> string \<Rightarrow> nat \<Rightarrow> string \<times> nat" where
  "Clean_loop rooted [] out dotdot = (out, dotdot)"
| "Clean_loop rooted (c # cs) out dotdot =
     (case Clean_step rooted c cs out dotdot of
        (rest, out', dotdot') \<Rightarrow> Clean_loop rooted rest out' dotdot')"
  by pat_completeness auto
termination
  apply (relation "measure (\<lambda>(rooted, p, out, dotdot). length p)")
   apply simp
  subgoal for rooted c cs out dotdot x rest y
    using Clean_step_shorter [of rooted c cs out dotdot]
    by (cases "Clean_step rooted c cs out dotdot") auto
  done

text \<open>
  \<open>Clean\<close>: the empty path is \<open>.\<close>; a rooted path starts the buffer with its slash,
  which no \<open>..\<close> removes; an empty buffer at the end is \<open>.\<close>.
\<close>

definition Clean :: "string \<Rightarrow> string" where
  "Clean p =
     (if p = [] then ''.''
      else
        (let rooted = (hd p = CHR ''/'');
             out = (if rooted then fst (Clean_loop True (tl p) ''/'' 1)
                    else fst (Clean_loop False p [] 0))
         in if out = [] then ''.'' else out))"

text \<open>\<open>strings.Join(elems, "/")\<close>.\<close>

fun join_slash :: "string list \<Rightarrow> string" where
  "join_slash [] = []"
| "join_slash [e] = e"
| "join_slash (e # es) = e @ CHR ''/'' # join_slash es"

text \<open>
  \<open>path.Join\<close>: from the first element that is not empty on, the elements are joined
  with slashes and the result is cleaned; with no such element the result is empty.
\<close>

definition path_Join :: "string list \<Rightarrow> string" where
  "path_Join elem =
     (case dropWhile (\<lambda>e. e = []) elem of [] \<Rightarrow> [] | es \<Rightarrow> Clean (join_slash es))"

text \<open>
  For reading the results of \<open>Clean\<close>: the buffer at the end of the loop on a path that
  is not empty, and the slash that the loop writes before a copied element. A label is a
  plain name when it is not empty, has no slash and is neither \<open>.\<close> nor \<open>..\<close>.
\<close>

definition plain_label :: "string \<Rightarrow> bool" where
  "plain_label dc \<longleftrightarrow> dc \<noteq> [] \<and> CHR ''/'' \<notin> set dc \<and> dc \<noteq> ''.'' \<and> dc \<noteq> ''..''"

definition Clean_buffer :: "string \<Rightarrow> string" where
  "Clean_buffer p =
     (if hd p = CHR ''/'' then fst (Clean_loop True (tl p) ''/'' 1)
      else fst (Clean_loop False p [] 0))"

definition slash_before :: "bool \<Rightarrow> string \<Rightarrow> string" where
  "slash_before rooted out =
     (if rooted \<and> length out \<noteq> 1 \<or> \<not> rooted \<and> length out \<noteq> 0 then ''/'' else [])"

subsection \<open>The manager's methods\<close>

definition getAllocatorPath :: "'w env \<Rightarrow> AllocatorManager \<Rightarrow> string \<Rightarrow> string" where
  "getAllocatorPath E m dc =
     (if dc = GlobalDCLocation E then rootPath m else path_Join [rootPath m, dc])"

text \<open>
  \<open>SetUpAllocator\<close>: the allocator is built before the lock is taken; the group is
  stored under the lock; the Global allocator is initialized in place, for a Local one
  the leader loop is started. The deferred \<open>Unlock\<close> runs last on every path. Reading
  \<open>am.allocatorGroups[dcLocation].allocator\<close> dereferences what the map holds (nil for
  a missing key).
\<close>

definition SetUpAllocator ::
  "'w env \<Rightarrow> Context \<Rightarrow> CancelFunc \<Rightarrow> string \<Rightarrow> Leadership \<Rightarrow> 'w st
    \<Rightarrow> error option outcome \<times> 'w st" where
  "SetUpAllocator E pctx pcancel dc l s =
     (let m = manager s;
          a = (if dc = GlobalDCLocation E
               then GlobalAllocator
                 (NewGlobalTSOAllocator l (getAllocatorPath E m dc) (saveInterval m)
                    (maxResetTSGap m))
               else LocalAllocator
                 (NewLocalTSOAllocator (member_f m) l (getAllocatorPath E m dc) dc
                    (saveInterval m) (maxResetTSGap m)));
          s1 = emit am_Lock s;
          s2 = s1\<lparr>manager := m\<lparr>allocatorGroups :=
                 AList.update dc
                   (Ptr \<lparr>dcLocation = dc, parentCtx = pctx, parentCancel = pcancel,
                         leadership = l, allocator = a\<rparr>)
                   (allocatorGroups m)\<rparr>\<rparr>
      in if dc = GlobalDCLocation E then
           (case map_of (allocatorGroups (manager s2)) dc of
              Some (Ptr g) \<Rightarrow>
                (case call (allocator_Initialize (allocator g)) (Initialize E (allocator g)) s2 of
                   (Some err, s3) \<Rightarrow> (Return (Some err), emit am_Unlock s3)
                 | (None, s3) \<Rightarrow> (Return None, emit am_Unlock s3))
            | _ \<Rightarrow> (Panic, emit am_Unlock s2))
         else
           (Return None,
            emit am_Unlock
              (emit (go (go_allocatorLeaderLoop pctx (as_LocalTSOAllocator a))) s2)))"

text \<open>
  \<open>resetAllocatorGroup\<close>: under the exclusive lock, the allocator and then the
  leadership of the group stored under the label are reset, when there is an entry.
\<close>

definition resetAllocatorGroup :: "'w env \<Rightarrow> string \<Rightarrow> 'w st \<Rightarrow> unit outcome \<times> 'w st" where
  "resetAllocatorGroup E dc s =
     (let s1 = emit am_Lock s
      in case map_of (allocatorGroups (manager s1)) dc of
           None \<Rightarrow> (Return (), emit am_Unlock s1)
         | Some nil \<Rightarrow> (Panic, emit am_Unlock s1)
         | Some (Ptr g) \<Rightarrow>
             (let s2 = call0 (allocator_Reset (allocator g)) (Reset E (allocator g)) s1;
                  s3 = call0 (leadership_Reset (leadership g))
                         (Leadership_Reset E (leadership g)) s2
              in (Return (), emit am_Unlock s3)))"

text \<open>
  \<open>updateAllocator\<close>, the worker the daemon starts for one group on a tick. The deferred
  \<open>wg.Done\<close> runs last on every path.
\<close>

definition updateAllocator :: "'w env \<Rightarrow> allocatorGroup ptr \<Rightarrow> 'w st \<Rightarrow> unit outcome \<times> 'w st" where
  "updateAllocator E ag s =
     (case ag of
        nil \<Rightarrow> (Panic, emit wg_Done s)
      | Ptr g \<Rightarrow>
          if Done E (parentCtx g) (world s) then
            (Return (),
             emit wg_Done (call0 (allocator_Reset (allocator g)) (Reset E (allocator g)) s))
          else
            (case call (leadership_Check (leadership g)) (Check E (leadership g)) s of
               (False, s1) \<Rightarrow>
                 (Return (), emit wg_Done (emit (time_Sleep (200 * 1000000)) s1))
             | (True, s1) \<Rightarrow>
                 (case call (allocator_UpdateTSO (allocator g)) (UpdateTSO E (allocator g)) s1 of
                    (Some err, s2) \<Rightarrow>
                      (Return (),
                       emit wg_Done
                         (call0 (call_CancelFunc (parentCancel g)) (cancel E (parentCancel g)) s2))
                  | (None, s2) \<Rightarrow> (Return (), emit wg_Done s2))))"

text \<open>
  \<open>HandleTSORequest\<close>: the result is Go's pair of a timestamp and an error. The deferred
  \<open>RUnlock\<close> runs when the function returns, after the allocator has answered.
\<close>

definition HandleTSORequest ::
  "'w env \<Rightarrow> string \<Rightarrow> 32 word \<Rightarrow> 'w st \<Rightarrow> (Timestamp \<times> error option) outcome \<times> 'w st" where
  "HandleTSORequest E dc count s =
     (let s1 = emit am_RLock s
      in case map_of (allocatorGroups (manager s1)) dc of
           None \<Rightarrow>
             (Return (Timestamp_zero,
                Some (ErrGetAllocator (dc @ '' allocator not found, generate timestamp failed''))),
              emit am_RUnlock s1)
         | Some nil \<Rightarrow> (Panic, emit am_RUnlock s1)
         | Some (Ptr g) \<Rightarrow>
             (case call (allocator_GenerateTSO (allocator g) count)
                     (GenerateTSO E (allocator g) count) s1 of
                (r, s2) \<Rightarrow> (Return r, emit am_RUnlock s2)))"

definition GetAllocator ::
  "'w env \<Rightarrow> string \<Rightarrow> 'w st \<Rightarrow> (Allocator ptr \<times> error option) outcome \<times> 'w st" where
  "GetAllocator E dc s =
     (let s1 = emit am_RLock s
      in case map_of (allocatorGroups (manager s1)) dc of
           None \<Rightarrow>
             (Return (nil, Some (ErrGetAllocator (dc @ '' allocator not found''))),
              emit am_RUnlock s1)
         | Some nil \<Rightarrow> (Panic, emit am_RUnlock s1)
         | Some (Ptr g) \<Rightarrow> (Return (Ptr (allocator g), None), emit am_RUnlock s1))"

text \<open>
  Modelled from the spec: \<open>slice.NoneOf\<close> of package \<open>pkg/slice\<close>, whose source is not
  in the file. The spec reads the call as "none of the supplied filter predicates returns
  true": the predicate, given an index into the slice, holds at no index.
\<close>

definition NoneOf :: "'a list \<Rightarrow> (nat \<Rightarrow> bool) \<Rightarrow> bool" where
  "NoneOf s p = (\<not> list_ex p [0..<length s])"

text \<open>
  An \<open>AllocatorGroupFilter\<close> is a function of a group pointer to bool; the filters of
  the package read the allocator and the leadership, so the answer depends on the world.
\<close>

type_synonym 'w AllocatorGroupFilter = "allocatorGroup ptr \<Rightarrow> 'w \<Rightarrow> bool"

text \<open>
  The \<open>range\<close> loop of \<open>getAllocatorGroups\<close> over the entries of the map, with the
  slice built so far.
\<close>

fun range_allocatorGroups ::
  "'w AllocatorGroupFilter list \<Rightarrow> 'w \<Rightarrow> (string \<times> allocatorGroup ptr) list
    \<Rightarrow> allocatorGroup ptr list \<Rightarrow> allocatorGroup ptr list" where
  "range_allocatorGroups filters w [] acc = acc"
| "range_allocatorGroups filters w ((k, ag) # rest) acc =
     (if ag = nil then range_allocatorGroups filters w rest acc
      else if NoneOf filters (\<lambda>i. (filters ! i) ag w)
        then range_allocatorGroups filters w rest (acc @ [ag])
      else range_allocatorGroups filters w rest acc)"

definition getAllocatorGroups ::
  "'w AllocatorGroupFilter list \<Rightarrow> 'w st \<Rightarrow> allocatorGroup ptr list \<times> 'w st" where
  "getAllocatorGroups filters s =
     (let s1 = emit am_RLock s;
          groups = range_allocatorGroups filters (world s1) (allocatorGroups (manager s1)) []
      in (groups, emit am_RUnlock s1))"

text \<open>The loop of \<open>GetAllocators\<close>: \<open>ag.allocator\<close> dereferences the group pointer.\<close>

fun range_allocators :: "allocatorGroup ptr list \<Rightarrow> Allocator list \<Rightarrow> Allocator list outcome" where
  "range_allocators [] acc = Return acc"
| "range_allocators (nil # rest) acc = Panic"
| "range_allocators (Ptr g # rest) acc = range_allocators rest (acc @ [allocator g])"

definition GetAllocators ::
  "'w AllocatorGroupFilter list \<Rightarrow> 'w st \<Rightarrow> Allocator list outcome \<times> 'w st" where
  "GetAllocators filters s =
     (case getAllocatorGroups filters s of (groups, s1) \<Rightarrow> (range_allocators groups [], s1))"

text \<open>
  The tick loop of a leader. It ends when the lease is lost or the child context is
  done, and runs on otherwise: the first argument bounds the number of turns, and
  \<open>None\<close> says that the loop has not ended within them.
\<close>

fun leaderTick_loop ::
  "'w env \<Rightarrow> nat \<Rightarrow> Context \<Rightarrow> LocalTSOAllocator \<Rightarrow> 'w st \<Rightarrow> 'w st option" where
  "leaderTick_loop E 0 ctx a s = None"
| "leaderTick_loop E (Suc n) ctx a s =
     (case select_tick E ctx (world s) of
        (leaderTicker_C, w) \<Rightarrow>
          (case call (allocator_IsStillAllocatorLeader a) (IsStillAllocatorLeader E a)
                  (s\<lparr>world := w\<rparr>) of
             (False, s1) \<Rightarrow> Some s1
           | (True, s1) \<Rightarrow> leaderTick_loop E n ctx a s1)
      | (ctx_Done, w) \<Rightarrow> Some (s\<lparr>world := w\<rparr>))"

text \<open>
  The two calls deferred after a successful campaign, in the order in which they run:
  \<open>am.resetAllocatorGroup(allocator.dcLocation)\<close>, then \<open>cancel()\<close> of the child
  context. A panic of the first does not keep the second from running.
\<close>

definition campaign_deferred ::
  "'w env \<Rightarrow> CancelFunc \<Rightarrow> string \<Rightarrow> 'w st \<Rightarrow> unit outcome \<times> 'w st" where
  "campaign_deferred E cancel_f dc s =
     (case resetAllocatorGroup E dc s of
        (r, s1) \<Rightarrow> (r, call0 (call_CancelFunc cancel_f) (cancel E cancel_f) s1))"

text \<open>
  \<open>campaignAllocatorLeader\<close>; the first argument bounds the turns of the tick loop.
  The first statement reads \<open>allocator.dcLocation\<close> through the pointer.
\<close>

definition campaignAllocatorLeader ::
  "'w env \<Rightarrow> nat \<Rightarrow> Context \<Rightarrow> LocalTSOAllocator ptr \<Rightarrow> 'w st
    \<Rightarrow> (unit outcome \<times> 'w st) option" where
  "campaignAllocatorLeader E n pctx ap s =
     (case ap of
        nil \<Rightarrow> Some (Panic, s)
      | Ptr a \<Rightarrow>
          (case call (allocator_CampaignAllocatorLeader a defaultAllocatorLeaderLease)
                  (CampaignAllocatorLeader E a defaultAllocatorLeaderLease) s of
             (Some err, s1) \<Rightarrow> Some (Return (), s1)
           | (None, s1) \<Rightarrow>
               (case call (context_WithCancel pctx) (WithCancel E pctx) s1 of
                  ((ctx, cancel_f), s2) \<Rightarrow>
                    (let dc = allocator_dcLocation a;
                         s3 = emit (go (go_KeepAllocatorLeader ctx a)) s2
                     in case call (allocator_Initialize (LocalAllocator a))
                               (Initialize E (LocalAllocator a)) s3 of
                          (Some err, s4) \<Rightarrow> Some (campaign_deferred E cancel_f dc s4)
                        | (None, s4) \<Rightarrow>
                            (let s5 = call0 (allocator_EnableAllocatorLeader a)
                                        (EnableAllocatorLeader E a) s4;
                                 s6 = emit (time_NewTicker leaderTickInterval) s5
                             in case leaderTick_loop E n ctx a s6 of
                                  None \<Rightarrow> None
                                | Some s7 \<Rightarrow>
                                    Some (campaign_deferred E cancel_f dc
                                            (emit ticker_Stop s7)))))))"

text \<open>
  A sequence of calls of \<open>SetUpAllocator\<close>, each given by its four arguments, run one
  after the other; what the calls return is dropped (a call that returns an error has
  stored its group all the same). \<open>call_label\<close> is the label a call supplies.
\<close>

fun SetUpAllocator_calls ::
  "'w env \<Rightarrow> (Context \<times> CancelFunc \<times> string \<times> Leadership) list \<Rightarrow> 'w st \<Rightarrow> 'w st" where
  "SetUpAllocator_calls E [] s = s"
| "SetUpAllocator_calls E ((pctx, pcancel, dc, l) # calls) s =
     SetUpAllocator_calls E calls (snd (SetUpAllocator E pctx pcancel dc l s))"

definition call_label :: "Context \<times> CancelFunc \<times> string \<times> Leadership \<Rightarrow> string" where
  "call_label c = (case c of (pctx, pcancel, dc, l) \<Rightarrow> dc)"

subsection \<open>Reading a trace\<close>

text \<open>
  Whether every \<open>GenerateTSO\<close> call of a trace is made while the shared lock of the
  manager is not held; the first argument says whether it is held where the trace starts.
\<close>

fun GenerateTSO_outside_RLock :: "bool \<Rightarrow> event list \<Rightarrow> bool" where
  "GenerateTSO_outside_RLock held [] = True"
| "GenerateTSO_outside_RLock held (am_RLock # es) = GenerateTSO_outside_RLock True es"
| "GenerateTSO_outside_RLock held (am_RUnlock # es) = GenerateTSO_outside_RLock False es"
| "GenerateTSO_outside_RLock held (allocator_GenerateTSO a n # es) =
     (\<not> held \<and> GenerateTSO_outside_RLock held es)"
| "GenerateTSO_outside_RLock held (e # es) = GenerateTSO_outside_RLock held es"

text \<open>
  The reset pairing of a trace, for one group. A critical section is what lies between
  a \<open>Lock\<close> and the next \<open>Unlock\<close>. A section is in order when it resets the group's
  leadership if it resets the group's allocator; a trace is in order when its sections
  are and no reset of the group's allocator lies outside a section. The second argument
  is the section that is open where the trace starts, if one is.
\<close>

definition section_pairs_resets :: "allocatorGroup \<Rightarrow> event list \<Rightarrow> bool" where
  "section_pairs_resets g sec =
     (allocator_Reset (allocator g) \<in> set sec \<longrightarrow> leadership_Reset (leadership g) \<in> set sec)"

fun reset_pairing :: "allocatorGroup \<Rightarrow> event list option \<Rightarrow> event list \<Rightarrow> bool" where
  "reset_pairing g None [] = True"
| "reset_pairing g (Some sec) [] = section_pairs_resets g sec"
| "reset_pairing g None (e # es) =
     (if e = am_Lock then reset_pairing g (Some []) es
      else e \<noteq> allocator_Reset (allocator g) \<and> reset_pairing g None es)"
| "reset_pairing g (Some sec) (e # es) =
     (if e = am_Unlock then section_pairs_resets g sec \<and> reset_pairing g None es
      else reset_pairing g (Some (sec @ [e])) es)"

subsection \<open>A concrete outside world\<close>

text \<open>
  An environment in which every call succeeds, no context is done and a leader loses its
  lease at the first tick; the label of the Global allocator is \<open>global\<close>. The variants
  change one answer each. A manager as the server would build it, and a Local group.
\<close>

definition env_ok :: "unit env" where
  "env_ok =
     \<lparr>GlobalDCLocation = ''global'',
      Initialize = (\<lambda>a w. (None, w)),
      UpdateTSO = (\<lambda>a w. (None, w)),
      GenerateTSO = (\<lambda>a n w. ((\<lparr>Physical = 1, Logical = uint n\<rparr>, None), w)),
      Reset = (\<lambda>a w. w),
      Check = (\<lambda>l w. (True, w)),
      Leadership_Reset = (\<lambda>l w. w),
      CampaignAllocatorLeader = (\<lambda>a n w. (None, w)),
      EnableAllocatorLeader = (\<lambda>a w. w),
      IsStillAllocatorLeader = (\<lambda>a w. (False, w)),
      Done = (\<lambda>c w. False),
      WithCancel = (\<lambda>c w. ((Context 1, CancelFunc 1), w)),
      cancel = (\<lambda>c w. w),
      select_tick = (\<lambda>c w. (leaderTicker_C, w))\<rparr>"

definition env_update_fails :: "unit env" where
  "env_update_fails = env_ok\<lparr>UpdateTSO := (\<lambda>a w. (Some (ErrOther ''etcd txn''), w))\<rparr>"

definition env_cancelled :: "unit env" where
  "env_cancelled = env_ok\<lparr>Done := (\<lambda>c w. True)\<rparr>"

definition demo_manager :: AllocatorManager where
  "demo_manager = NewAllocatorManager (Member 1) ''/pd/tso'' 3000000000 (\<lambda>u. 86400000000000)"

definition demo_st :: "unit st" where
  "demo_st = \<lparr>manager = demo_manager, world = (), trace = []\<rparr>"

definition demo_group :: allocatorGroup where
  "demo_group =
     \<lparr>dcLocation = ''dc-1'', parentCtx = Context 2, parentCancel = CancelFunc 2,
      leadership = Leadership 2,
      allocator = LocalAllocator
        (NewLocalTSOAllocator (Member 1) (Leadership 2) ''/pd/tso/dc-1'' ''dc-1'' 3000000000
           (\<lambda>u. 86400000000000))\<rparr>"

definition env_init_fails :: "unit env" where
  "env_init_fails = env_ok\<lparr>Initialize := (\<lambda>a w. (Some (ErrOther ''load timestamp''), w))\<rparr>"

definition demo_global_group :: allocatorGroup where
  "demo_global_group =
     \<lparr>dcLocation = ''global'', parentCtx = Context 0, parentCancel = CancelFunc 0,
      leadership = Leadership 0,
      allocator = GlobalAllocator
        (NewGlobalTSOAllocator (Leadership 0) ''/pd/tso'' 3000000000 (\<lambda>u. 86400000000000))\<rparr>"

definition demo_local_allocator :: LocalTSOAllocator where
  "demo_local_allocator =
     NewLocalTSOAllocator (Member 1) (Leadership 2) ''/pd/tso/dc-1'' ''dc-1'' 3000000000
       (\<lambda>u. 86400000000000)"

text \<open>The state after the Global allocator and the allocator of \<open>dc-1\<close> have been set up.\<close>

definition demo_registered :: "unit st" where
  "demo_registered =
     snd (SetUpAllocator env_ok (Context 2) (CancelFunc 2) ''dc-1'' (Leadership 2)
       (snd (SetUpAllocator env_ok (Context 0) (CancelFunc 0) ''global'' (Leadership 0)
          demo_st)))"

text \<open>The same registry with a nil pointer stored under a third label.\<close>

definition demo_with_nil :: "unit st" where
  "demo_with_nil =
     demo_registered\<lparr>manager := (manager demo_registered)
       \<lparr>allocatorGroups := allocatorGroups (manager demo_registered) @ [(''dc-2'', nil)]\<rparr>\<rparr>"

text \<open>A filter that excludes the group of one label.\<close>

definition filter_dcLocation :: "string \<Rightarrow> unit AllocatorGroupFilter" where
  "filter_dcLocation dc ag w = (case ag of nil \<Rightarrow> False | Ptr g \<Rightarrow> dcLocation g = dc)"

text \<open>Four calls with two labels: the second pair sets both allocators up again.\<close>

definition demo_calls :: "(Context \<times> CancelFunc \<times> string \<times> Leadership) list" where
  "demo_calls =
     [(Context 0, CancelFunc 0, ''global'', Leadership 0),
      (Context 2, CancelFunc 2, ''dc-1'', Leadership 2),
      (Context 3, CancelFunc 3, ''global'', Leadership 0),
      (Context 4, CancelFunc 4, ''dc-1'', Leadership 4)]"

text \<open>
  An environment whose world counts: \<open>Initialize\<close> fails and adds one, \<open>GenerateTSO\<close>
  answers a timestamp and adds ten. The registry of \<open>demo_registered\<close> in world 0.
\<close>

definition env_counting :: "nat env" where
  "env_counting =
     \<lparr>GlobalDCLocation = ''global'',
      Initialize = (\<lambda>a w. (Some (ErrOther ''load timestamp''), Suc w)),
      UpdateTSO = (\<lambda>a w. (None, w)),
      GenerateTSO = (\<lambda>a n w. ((\<lparr>Physical = 1, Logical = uint n\<rparr>, None), w + 10)),
      Reset = (\<lambda>a w. w),
      Check = (\<lambda>l w. (True, w)),
      Leadership_Reset = (\<lambda>l w. w),
      CampaignAllocatorLeader = (\<lambda>a n w. (None, w)),
      EnableAllocatorLeader = (\<lambda>a w. w),
      IsStillAllocatorLeader = (\<lambda>a w. (False, w)),
      Done = (\<lambda>c w. False),
      WithCancel = (\<lambda>c w. ((Context 1, CancelFunc 1), w)),
      cancel = (\<lambda>c w. w),
      select_tick = (\<lambda>c w. (leaderTicker_C, w))\<rparr>"

definition demo_counting_st :: "nat st" where
  "demo_counting_st = \<lparr>manager = demo_manager, world = 0, trace = []\<rparr>"



section \<open>Properties\<close>

subsection \<open>The state after a call\<close>

lemma emit_simps [simp]:
  "trace (emit e s) = trace s @ [e]" "world (emit e s) = world s"
  "manager (emit e s) = manager s"
  by (simp_all add: emit_def)

lemma call0_simps [simp]:
  "trace (call0 e f s) = trace s @ [e]" "world (call0 e f s) = f (world s)"
  "manager (call0 e f s) = manager s"
  by (simp_all add: call0_def)

lemma call_simps [simp]:
  "fst (call e f s) = fst (f (world s))"
  "trace (snd (call e f s)) = trace s @ [e]"
  "world (snd (call e f s)) = snd (f (world s))"
  "manager (snd (call e f s)) = manager s"
  by (simp_all add: call_def split: prod.splits)

lemma call_eq:
  "f (world s) = (r, w) \<Longrightarrow> call e f s = (r, s\<lparr>world := w, trace := trace s @ [e]\<rparr>)"
  by (simp add: call_def)

subsection \<open>The update worker\<close>

text \<open>
  C2. The update worker, on a group whose parent context is not done and whose leadership
  check answers true: it always returns; when \<open>UpdateTSO\<close> answers an error, the calls it
  makes are the check, the update, \<open>parentCancel()\<close> of the group and the deferred
  \<open>wg.Done()\<close>, in this order; when \<open>UpdateTSO\<close> succeeds they are the check, the update
  and \<open>wg.Done()\<close>, so \<open>parentCancel\<close> is not called.
\<close>

theorem updateAllocator_parentCancel:
  assumes "\<not> Done E (parentCtx g) (world s)"
    and "Check E (leadership g) (world s) = (True, w1)"
    and "UpdateTSO E (allocator g) w1 = (r, w2)"
  shows "fst (updateAllocator E (Ptr g) s) = Return () \<and>
         (r \<noteq> None \<longrightarrow>
            trace (snd (updateAllocator E (Ptr g) s)) =
              trace s @ [leadership_Check (leadership g), allocator_UpdateTSO (allocator g),
                         call_CancelFunc (parentCancel g), wg_Done] \<and>
            world (snd (updateAllocator E (Ptr g) s)) = cancel E (parentCancel g) w2) \<and>
         (r = None \<longrightarrow>
            trace (snd (updateAllocator E (Ptr g) s)) =
              trace s @ [leadership_Check (leadership g), allocator_UpdateTSO (allocator g),
                         wg_Done] \<and>
            world (snd (updateAllocator E (Ptr g) s)) = w2)"
  using assms
  by (cases r) (simp_all add: updateAllocator_def call_eq)

theorem updateAllocator_parentCancel_witness:
  "\<not> Done env_update_fails (parentCtx demo_group) (world demo_st) \<and>
   Check env_update_fails (leadership demo_group) (world demo_st) = (True, ()) \<and>
   UpdateTSO env_update_fails (allocator demo_group) () = (Some (ErrOther ''etcd txn''), ()) \<and>
   fst (updateAllocator env_update_fails (Ptr demo_group) demo_st) = Return () \<and>
   trace (snd (updateAllocator env_update_fails (Ptr demo_group) demo_st)) =
     [leadership_Check (Leadership 2), allocator_UpdateTSO (allocator demo_group),
      call_CancelFunc (CancelFunc 2), wg_Done] \<and>
   trace (snd (updateAllocator env_ok (Ptr demo_group) demo_st)) =
     [leadership_Check (Leadership 2), allocator_UpdateTSO (allocator demo_group), wg_Done]"
proof -
  have a: "\<not> Done env_update_fails (parentCtx demo_group) (world demo_st)"
    by (simp add: env_update_fails_def env_ok_def)
  have b: "Check env_update_fails (leadership demo_group) (world demo_st) = (True, ())"
    by (simp add: env_update_fails_def env_ok_def)
  have c: "UpdateTSO env_update_fails (allocator demo_group) () =
             (Some (ErrOther ''etcd txn''), ())"
    by (simp add: env_update_fails_def env_ok_def)
  have a': "\<not> Done env_ok (parentCtx demo_group) (world demo_st)"
    by (simp add: env_ok_def)
  have b': "Check env_ok (leadership demo_group) (world demo_st) = (True, ())"
    by (simp add: env_ok_def)
  have c': "UpdateTSO env_ok (allocator demo_group) () = (None, ())"
    by (simp add: env_ok_def)
  show ?thesis
    using a b c updateAllocator_parentCancel [OF a b c]
      updateAllocator_parentCancel [OF a' b' c']
    by (simp add: demo_group_def demo_st_def)
qed

subsection \<open>What \<open>SetUpAllocator\<close> does to the registry\<close>

lemma length_AList_update:
  "k \<in> set (map fst al) \<Longrightarrow> length (AList.update k v al) = length al"
  by (induction al) auto

lemma SetUpAllocator_registry:
  "allocatorGroups (manager (snd (SetUpAllocator E pctx pcancel dc l s))) =
     AList.update dc
       (Ptr \<lparr>dcLocation = dc, parentCtx = pctx, parentCancel = pcancel, leadership = l,
             allocator =
               (if dc = GlobalDCLocation E
                then GlobalAllocator
                  (NewGlobalTSOAllocator l (getAllocatorPath E (manager s) dc)
                     (saveInterval (manager s)) (maxResetTSGap (manager s)))
                else LocalAllocator
                  (NewLocalTSOAllocator (member_f (manager s)) l
                     (getAllocatorPath E (manager s) dc) dc (saveInterval (manager s))
                     (maxResetTSGap (manager s))))\<rparr>)
       (allocatorGroups (manager s))"
proof (cases "dc = GlobalDCLocation E")
  case True
  show ?thesis
    unfolding True
    by (cases "Initialize E (GlobalAllocator
                 (NewGlobalTSOAllocator l (getAllocatorPath E (manager s) (GlobalDCLocation E))
                    (saveInterval (manager s)) (maxResetTSGap (manager s)))) (world s)")
       (simp add: SetUpAllocator_def Let_def update_conv' call_def split: option.splits)
next
  case False
  then show ?thesis
    by (simp add: SetUpAllocator_def Let_def)
qed

lemma SetUpAllocator_returns: "fst (SetUpAllocator E pctx pcancel dc l s) \<noteq> Panic"
proof (cases "dc = GlobalDCLocation E")
  case True
  show ?thesis
    unfolding True
    by (cases "Initialize E (GlobalAllocator
                 (NewGlobalTSOAllocator l (getAllocatorPath E (manager s) (GlobalDCLocation E))
                    (saveInterval (manager s)) (maxResetTSGap (manager s)))) (world s)")
       (simp add: SetUpAllocator_def Let_def update_conv' call_def split: option.splits)
next
  case False
  then show ?thesis
    by (simp add: SetUpAllocator_def Let_def)
qed

lemma SetUpAllocator_keys:
  "map fst (allocatorGroups (manager (snd (SetUpAllocator E pctx pcancel dc l s)))) =
     (if dc \<in> set (map fst (allocatorGroups (manager s)))
      then map fst (allocatorGroups (manager s))
      else map fst (allocatorGroups (manager s)) @ [dc])"
  unfolding SetUpAllocator_registry
  by (simp add: update_keys del: set_map)

lemma SetUpAllocator_calls_keys:
  "registry_ok (manager s) \<Longrightarrow>
   registry_ok (manager (SetUpAllocator_calls E calls s)) \<and>
   set (map fst (allocatorGroups (manager (SetUpAllocator_calls E calls s)))) =
     set (map fst (allocatorGroups (manager s))) \<union> set (map call_label calls)"
proof (induction calls arbitrary: s)
  case Nil
  then show ?case by simp
next
  case (Cons c calls)
  obtain pctx pcancel dc l where c: "c = (pctx, pcancel, dc, l)" by (cases c)
  let ?s1 = "snd (SetUpAllocator E pctx pcancel dc l s)"
  have ok: "registry_ok (manager ?s1)"
    using Cons.prems unfolding registry_ok_def SetUpAllocator_keys by simp
  have keys: "set (map fst (allocatorGroups (manager ?s1))) =
      insert dc (set (map fst (allocatorGroups (manager s))))"
    unfolding SetUpAllocator_keys by auto
  show ?case
    using Cons.IH [OF ok] keys unfolding c by (simp add: call_label_def)
qed

text \<open>No call stores a nil pointer: a registry built by the manager holds none.\<close>

lemma SetUpAllocator_lookup:
  "map_of (allocatorGroups (manager (snd (SetUpAllocator E pctx pcancel dc l s)))) k = Some nil
   \<longleftrightarrow> k \<noteq> dc \<and> map_of (allocatorGroups (manager s)) k = Some nil"
  unfolding SetUpAllocator_registry by (simp add: update_conv')

lemma SetUpAllocator_calls_no_nil:
  "(\<And>k. map_of (allocatorGroups (manager s)) k \<noteq> Some nil) \<Longrightarrow>
   map_of (allocatorGroups (manager (SetUpAllocator_calls E calls s))) k \<noteq> Some nil"
proof (induction calls arbitrary: s)
  case Nil
  then show ?case by simp
next
  case (Cons c calls)
  obtain pctx pcancel dc l where c: "c = (pctx, pcancel, dc, l)" by (cases c)
  show ?case
    unfolding c SetUpAllocator_calls.simps
    by (rule Cons.IH) (simp add: SetUpAllocator_lookup Cons.prems)
qed

subsection \<open>The concrete registry\<close>

lemma path_Join_demo: "path_Join [''/pd/tso'', ''dc-1''] = ''/pd/tso/dc-1''"
  by (simp add: path_Join_def Clean_def Clean_step_def)

lemma demo_registered_manager:
  "manager demo_registered =
     demo_manager\<lparr>allocatorGroups :=
       [(''global'', Ptr demo_global_group), (''dc-1'', Ptr demo_group)]\<rparr>"
  by (simp add: demo_registered_def SetUpAllocator_def getAllocatorPath_def path_Join_demo
      demo_st_def demo_manager_def NewAllocatorManager_def env_ok_def call_def Let_def
      demo_group_def demo_global_group_def emit_def)

lemma demo_registered_groups:
  "allocatorGroups (manager demo_registered) =
     [(''global'', Ptr demo_global_group), (''dc-1'', Ptr demo_group)]"
  by (simp add: demo_registered_manager)

lemma demo_registered_trace:
  "trace demo_registered =
      [am_Lock, allocator_Initialize (allocator demo_global_group), am_Unlock, am_Lock,
       go (go_allocatorLeaderLoop (Context 2)
         (Ptr (NewLocalTSOAllocator (Member 1) (Leadership 2) ''/pd/tso/dc-1'' ''dc-1''
           3000000000 (\<lambda>u. 86400000000000)))), am_Unlock]"
    by (simp add: demo_registered_def SetUpAllocator_def getAllocatorPath_def path_Join_demo
      demo_st_def demo_manager_def NewAllocatorManager_def env_ok_def call_def Let_def
      demo_global_group_def emit_def)

subsection \<open>The request dispatcher\<close>




subsection \<open>Setting an allocator up\<close>

text \<open>
  C5. \<open>SetUpAllocator\<close> with the Global label calls \<open>Initialize\<close> of the new allocator
  between \<open>Lock\<close> and \<open>Unlock\<close>, returns what it answers (the error, when it fails) and
  leaves the world that \<open>Initialize\<close> leaves; the new group is registered under the
  label whatever the answer. With any other label it returns no error, the only calls
  are \<open>Lock\<close>, the start of the leader loop and \<open>Unlock\<close> (no \<open>Initialize\<close>), the world
  is as it was, and the new group is registered. No other entry of the registry changes.
\<close>

theorem SetUpAllocator_Global_and_Local:
  "(dc = GlobalDCLocation E \<longrightarrow>
      (let a = GlobalAllocator
                 (NewGlobalTSOAllocator l (rootPath (manager s)) (saveInterval (manager s))
                    (maxResetTSGap (manager s)));
           r = SetUpAllocator E pctx pcancel dc l s
       in fst r = Return (fst (Initialize E a (world s))) \<and>
          world (snd r) = snd (Initialize E a (world s)) \<and>
          trace (snd r) = trace s @ [am_Lock, allocator_Initialize a, am_Unlock] \<and>
          map_of (allocatorGroups (manager (snd r))) dc =
            Some (Ptr \<lparr>dcLocation = dc, parentCtx = pctx, parentCancel = pcancel,
                        leadership = l, allocator = a\<rparr>))) \<and>
   (dc \<noteq> GlobalDCLocation E \<longrightarrow>
      (let la = NewLocalTSOAllocator (member_f (manager s)) l
                  (path_Join [rootPath (manager s), dc]) dc (saveInterval (manager s))
                  (maxResetTSGap (manager s));
           r = SetUpAllocator E pctx pcancel dc l s
       in fst r = Return None \<and>
          world (snd r) = world s \<and>
          trace (snd r) =
            trace s @ [am_Lock, go (go_allocatorLeaderLoop pctx (Ptr la)), am_Unlock] \<and>
          map_of (allocatorGroups (manager (snd r))) dc =
            Some (Ptr \<lparr>dcLocation = dc, parentCtx = pctx, parentCancel = pcancel,
                        leadership = l, allocator = LocalAllocator la\<rparr>))) \<and>
   (\<forall>k. k \<noteq> dc \<longrightarrow>
      map_of (allocatorGroups (manager (snd (SetUpAllocator E pctx pcancel dc l s)))) k =
        map_of (allocatorGroups (manager s)) k)"
proof (cases "dc = GlobalDCLocation E")
  case True
  then show ?thesis
    by (cases "Initialize E (GlobalAllocator
                 (NewGlobalTSOAllocator l (rootPath (manager s)) (saveInterval (manager s))
                    (maxResetTSGap (manager s)))) (world s)")
       (simp add: SetUpAllocator_def getAllocatorPath_def Let_def update_conv' call_def
         split: option.splits)
next
  case False
  then show ?thesis
    by (simp add: SetUpAllocator_def getAllocatorPath_def Let_def update_conv')
qed

theorem SetUpAllocator_Global_and_Local_witness:
  "fst (SetUpAllocator env_counting (Context 0) (CancelFunc 0) ''global'' (Leadership 0)
     demo_counting_st) = Return (Some (ErrOther ''load timestamp'')) \<and>
   world (snd (SetUpAllocator env_counting (Context 0) (CancelFunc 0) ''global''
     (Leadership 0) demo_counting_st)) = 1 \<and>
   trace (snd (SetUpAllocator env_counting (Context 0) (CancelFunc 0) ''global''
     (Leadership 0) demo_counting_st)) =
     [am_Lock, allocator_Initialize (allocator demo_global_group), am_Unlock] \<and>
   map_of (allocatorGroups (manager (snd
     (SetUpAllocator env_counting (Context 0) (CancelFunc 0) ''global'' (Leadership 0)
        demo_counting_st)))) ''global'' = Some (Ptr demo_global_group) \<and>
   fst (SetUpAllocator env_counting (Context 2) (CancelFunc 2) ''dc-1'' (Leadership 2)
     demo_counting_st) = Return None \<and>
   world (snd (SetUpAllocator env_counting (Context 2) (CancelFunc 2) ''dc-1''
     (Leadership 2) demo_counting_st)) = 0 \<and>
   trace (snd (SetUpAllocator env_counting (Context 2) (CancelFunc 2) ''dc-1''
     (Leadership 2) demo_counting_st)) =
     [am_Lock,
      go (go_allocatorLeaderLoop (Context 2)
        (Ptr (NewLocalTSOAllocator (Member 1) (Leadership 2) ''/pd/tso/dc-1'' ''dc-1''
           3000000000 (\<lambda>u. 86400000000000)))),
      am_Unlock]"
  using SetUpAllocator_Global_and_Local
      [where dc = "''global''" and E = env_counting and l = "Leadership 0"
         and s = demo_counting_st and pctx = "Context 0" and pcancel = "CancelFunc 0"]
    SetUpAllocator_Global_and_Local
      [where dc = "''dc-1''" and E = env_counting and l = "Leadership 2"
         and s = demo_counting_st and pctx = "Context 2" and pcancel = "CancelFunc 2"]
  by (simp add: env_counting_def demo_counting_st_def demo_manager_def
      NewAllocatorManager_def demo_global_group_def path_Join_demo Let_def)

subsection \<open>Enumeration with filters\<close>

lemma NoneOf_filters:
  "NoneOf filters (\<lambda>i. (filters ! i) ag w) \<longleftrightarrow> \<not> (\<exists>f \<in> set filters. f ag w)"
proof -
  have "(\<exists>i \<in> set [0..<length filters]. (filters ! i) ag w) \<longleftrightarrow>
      (\<exists>f \<in> set filters. f ag w)"
    unfolding set_upt by (metis atLeastLessThan_iff in_set_conv_nth zero_le)
  then show ?thesis
    unfolding NoneOf_def list_ex_iff by (rule arg_cong)
qed

lemma range_allocatorGroups_filter:
  "range_allocatorGroups filters w reg acc =
     acc @ filter (\<lambda>ag. ag \<noteq> nil \<and> \<not> (\<exists>f \<in> set filters. f ag w)) (map snd reg)"
proof (induction reg arbitrary: acc)
  case Nil
  then show ?case by simp
next
  case (Cons e reg)
  obtain k ag where e: "e = (k, ag)" by (cases e)
  show ?case
    unfolding e by (simp add: Cons.IH NoneOf_filters del: bex_simps)
qed

lemma getAllocatorGroups_filter:
  "getAllocatorGroups filters s =
     (filter (\<lambda>ag. ag \<noteq> nil \<and> \<not> (\<exists>f \<in> set filters. f ag (world s)))
        (map snd (allocatorGroups (manager s))),
      s\<lparr>trace := trace s @ [am_RLock, am_RUnlock]\<rparr>)"
  by (simp add: getAllocatorGroups_def Let_def range_allocatorGroups_filter emit_def)

text \<open>
  C7. On a registry with one entry per label, the groups that \<open>getAllocatorGroups\<close>
  returns are exactly the registered groups on which no filter of the list answers true,
  the filters being asked in the world of the call.
\<close>

theorem getAllocatorGroups_exact:
  assumes "registry_ok (manager s)"
  shows "set (fst (getAllocatorGroups filters s)) =
           {Ptr g | g. (\<exists>dc. map_of (allocatorGroups (manager s)) dc = Some (Ptr g)) \<and>
                       \<not> (\<exists>f \<in> set filters. f (Ptr g) (world s))}"
proof -
  have reg: "ag \<in> snd ` set (allocatorGroups (manager s)) \<longleftrightarrow>
      (\<exists>dc. map_of (allocatorGroups (manager s)) dc = Some ag)" for ag
    using assms by (force simp: registry_ok_def dest: map_of_SomeD)
  have "ag \<in> set (fst (getAllocatorGroups filters s)) \<longleftrightarrow>
      (\<exists>g. ag = Ptr g \<and> (\<exists>dc. map_of (allocatorGroups (manager s)) dc = Some (Ptr g)) \<and>
           \<not> (\<exists>f \<in> set filters. f (Ptr g) (world s)))" for ag
    using reg [of ag] by (cases ag) (auto simp: getAllocatorGroups_filter)
  then show ?thesis by blast
qed

theorem getAllocatorGroups_exact_witness:
  "registry_ok (manager demo_registered) \<and>
   filter_dcLocation ''global'' (Ptr demo_global_group) (world demo_registered) \<and>
   \<not> filter_dcLocation ''global'' (Ptr demo_group) (world demo_registered) \<and>
   set (fst (getAllocatorGroups [filter_dcLocation ''global''] demo_registered)) =
     {Ptr demo_group} \<and>
   set (fst (getAllocatorGroups [] demo_registered)) =
     {Ptr demo_global_group, Ptr demo_group}"
proof -
  have ok: "registry_ok (manager demo_registered)"
    by (simp add: registry_ok_def demo_registered_groups)
  have m: "map_of (allocatorGroups (manager demo_registered)) dc = Some (Ptr g) \<longleftrightarrow>
      dc = ''global'' \<and> g = demo_global_group \<or> dc = ''dc-1'' \<and> g = demo_group" for dc g
    by (auto simp: demo_registered_groups)
  have f: "filter_dcLocation ''global'' (Ptr demo_global_group) (world demo_registered)"
    "\<not> filter_dcLocation ''global'' (Ptr demo_group) (world demo_registered)"
    by (simp_all add: filter_dcLocation_def demo_global_group_def demo_group_def)
  have "set (fst (getAllocatorGroups [filter_dcLocation ''global''] demo_registered)) =
     {Ptr demo_group}"
    unfolding getAllocatorGroups_exact [OF ok] using f by (auto simp: m)
  moreover have "set (fst (getAllocatorGroups [] demo_registered)) =
     {Ptr demo_global_group, Ptr demo_group}"
    unfolding getAllocatorGroups_exact [OF ok] by (auto simp: m)
  ultimately show ?thesis using ok f by simp
qed

text \<open>
  C10. The slice that \<open>getAllocatorGroups\<close> returns holds no nil pointer, whatever the
  registry holds; \<open>GetAllocators\<close> therefore never dereferences nil: it returns the
  allocators of the groups of that slice, in its order.
\<close>

theorem getAllocatorGroups_no_nil:
  "nil \<notin> set (fst (getAllocatorGroups filters s)) \<and>
   fst (GetAllocators filters s) =
     Return [allocator g. Ptr g \<leftarrow> fst (getAllocatorGroups filters s)]"
proof -
  have r: "nil \<notin> set groups \<Longrightarrow>
      range_allocators groups acc = Return (acc @ [allocator g. Ptr g \<leftarrow> groups])"
    for groups acc
  proof (induction groups arbitrary: acc)
    case Nil
    then show ?case by simp
  next
    case (Cons ag groups)
    then show ?case by (cases ag) auto
  qed
  have n: "nil \<notin> set (fst (getAllocatorGroups filters s))"
    by (simp add: getAllocatorGroups_filter)
  have "fst (GetAllocators filters s) = range_allocators (fst (getAllocatorGroups filters s)) []"
    by (simp add: GetAllocators_def getAllocatorGroups_filter)
  with n r [OF n, of "[]"] show ?thesis by simp
qed

theorem getAllocatorGroups_no_nil_witness:
  "map_of (allocatorGroups (manager demo_with_nil)) ''dc-2'' = Some nil \<and>
   fst (getAllocatorGroups [] demo_with_nil) = [Ptr demo_global_group, Ptr demo_group] \<and>
   nil \<notin> set (fst (getAllocatorGroups [] demo_with_nil)) \<and>
   fst (GetAllocators [] demo_with_nil) =
     Return [allocator demo_global_group, allocator demo_group]"
proof -
  have g: "fst (getAllocatorGroups [] demo_with_nil) = [Ptr demo_global_group, Ptr demo_group]"
    by (simp add: getAllocatorGroups_filter demo_with_nil_def demo_registered_groups)
  have m: "map_of (allocatorGroups (manager demo_with_nil)) ''dc-2'' = Some nil"
    by (simp add: demo_with_nil_def demo_registered_groups)
  show ?thesis
    using getAllocatorGroups_no_nil [of "[]" demo_with_nil] m unfolding g by simp
qed


subsection \<open>One group per label\<close>

text \<open>
  C8. After any sequence of \<open>SetUpAllocator\<close> calls on a manager with an empty registry,
  the registry has one entry per label (its keys are distinct), its labels are the labels
  supplied, and its size is the number of distinct labels supplied. A call with a label
  that has an entry leaves the size as it was, stores the new group under the label and
  changes no other entry.
\<close>

theorem SetUpAllocator_unique_registration:
  "(allocatorGroups (manager s) = [] \<longrightarrow>
      (let reg = allocatorGroups (manager (SetUpAllocator_calls E calls s))
       in distinct (map fst reg) \<and>
          set (map fst reg) = set (map call_label calls) \<and>
          length reg = card (set (map call_label calls)))) \<and>
   (map_of (allocatorGroups (manager s)) dc \<noteq> None \<longrightarrow>
      (let reg = allocatorGroups (manager (snd (SetUpAllocator E pctx pcancel dc l s)))
       in length reg = length (allocatorGroups (manager s)) \<and>
          (\<exists>g. map_of reg dc = Some (Ptr g) \<and> parentCtx g = pctx \<and>
               parentCancel g = pcancel \<and> leadership g = l \<and> dcLocation g = dc) \<and>
          (\<forall>k. k \<noteq> dc \<longrightarrow> map_of reg k = map_of (allocatorGroups (manager s)) k)))"
proof -
  have a: ?thesis if "allocatorGroups (manager s) = []" 
  proof -
    have ok: "registry_ok (manager s)" using that by (simp add: registry_ok_def)
    let ?reg = "allocatorGroups (manager (SetUpAllocator_calls E calls s))"
    have d: "distinct (map fst ?reg)"
      and k: "set (map fst ?reg) = set (map call_label calls)"
      using SetUpAllocator_calls_keys [OF ok, of E calls] that
      by (simp_all add: registry_ok_def)
    have "length ?reg = card (set (map fst ?reg))"
      using distinct_card [OF d] by simp
    with d k that show ?thesis by (simp add: Let_def)
  qed
  have b: ?thesis if "map_of (allocatorGroups (manager s)) dc \<noteq> None"
  proof -
    from that have nonempty: "allocatorGroups (manager s) \<noteq> []" by auto
    from that have mem: "dc \<in> set (map fst (allocatorGroups (manager s)))"
      by (simp add: map_of_eq_None_iff)
    have "length (AList.update dc g (allocatorGroups (manager s))) =
        length (allocatorGroups (manager s))" for g
      using mem by (rule length_AList_update)
    with nonempty that show ?thesis
      unfolding SetUpAllocator_registry by (simp add: Let_def update_conv')
  qed
  show ?thesis
    using a b by (cases "allocatorGroups (manager s) = []") auto
qed


theorem SetUpAllocator_unique_registration_witness:
  "allocatorGroups (manager demo_st) = [] \<and>
   map fst (allocatorGroups (manager (SetUpAllocator_calls env_ok demo_calls demo_st))) =
     [''global'', ''dc-1''] \<and>
   card (set (map call_label demo_calls)) = 2 \<and>
   length (allocatorGroups (manager (SetUpAllocator_calls env_ok demo_calls demo_st))) = 2 \<and>
   map_of (allocatorGroups (manager demo_registered)) ''dc-1'' = Some (Ptr demo_group) \<and>
   length (allocatorGroups (manager (snd
     (SetUpAllocator env_ok (Context 4) (CancelFunc 4) ''dc-1'' (Leadership 4)
        demo_registered)))) = 2 \<and>
   map_of (allocatorGroups (manager (snd
     (SetUpAllocator env_ok (Context 4) (CancelFunc 4) ''dc-1'' (Leadership 4)
        demo_registered)))) ''dc-1'' =
     Some (Ptr \<lparr>dcLocation = ''dc-1'', parentCtx = Context 4, parentCancel = CancelFunc 4,
       leadership = Leadership 4,
       allocator = LocalAllocator
         (NewLocalTSOAllocator (Member 1) (Leadership 4) ''/pd/tso/dc-1'' ''dc-1'' 3000000000
           (\<lambda>u. 86400000000000))\<rparr>)"
proof -
  have e: "allocatorGroups (manager demo_st) = []"
    by (simp add: demo_st_def demo_manager_def NewAllocatorManager_def)
  have c: "card (set (map call_label demo_calls)) = 2"
    by (simp add: demo_calls_def call_label_def card_insert_if)
  have k: "map fst (allocatorGroups (manager (SetUpAllocator_calls env_ok demo_calls demo_st))) =
     [''global'', ''dc-1'']"
    by (simp add: demo_calls_def SetUpAllocator_keys e)
  have p: "map_of (allocatorGroups (manager demo_registered)) ''dc-1'' = Some (Ptr demo_group)"
    by (simp add: demo_registered_groups)
  have g: "GlobalDCLocation env_ok = ''global''" by (simp add: env_ok_def)
  show ?thesis
    using e c k p
      SetUpAllocator_unique_registration
        [where s = demo_st and E = env_ok and calls = demo_calls and dc = "''x''"]
      SetUpAllocator_unique_registration
        [where s = demo_registered and E = env_ok and dc = "''dc-1''" and pctx = "Context 4"
           and pcancel = "CancelFunc 4" and l = "Leadership 4" and calls = "[]"]
    by (simp add: SetUpAllocator_registry g Let_def update_conv' demo_registered_manager
        getAllocatorPath_def path_Join_demo demo_manager_def NewAllocatorManager_def)
qed


subsection \<open>Resetting a group\<close>

lemma resetAllocatorGroup_present:
  "map_of (allocatorGroups (manager s)) dc = Some (Ptr g) \<Longrightarrow>
   resetAllocatorGroup E dc s =
     (Return (),
      s\<lparr>world := Leadership_Reset E (leadership g) (Reset E (allocator g) (world s)),
        trace := trace s @ [am_Lock, allocator_Reset (allocator g),
                            leadership_Reset (leadership g), am_Unlock]\<rparr>)"
  by (simp add: resetAllocatorGroup_def Let_def emit_def call0_def)

lemma resetAllocatorGroup_absent:
  "map_of (allocatorGroups (manager s)) dc = None \<Longrightarrow>
   resetAllocatorGroup E dc s = (Return (), s\<lparr>trace := trace s @ [am_Lock, am_Unlock]\<rparr>)"
  by (simp add: resetAllocatorGroup_def Let_def emit_def)

lemma resetAllocatorGroup_nil:
  "map_of (allocatorGroups (manager s)) dc = Some nil \<Longrightarrow>
   resetAllocatorGroup E dc s = (Panic, s\<lparr>trace := trace s @ [am_Lock, am_Unlock]\<rparr>)"
  by (simp add: resetAllocatorGroup_def Let_def emit_def)

text \<open>
  C1, as the spec states it: every \<open>Reset\<close> of a group's allocator that the manager
  calls lies in a critical section that also resets the group's leadership. The update
  worker breaks this: on a group whose parent context is done it resets the allocator
  and nothing else, and it holds no lock.
\<close>

theorem reset_pairing_counterexample:
  "Done env_cancelled (parentCtx demo_group) (world demo_registered) \<and>
   trace (snd (updateAllocator env_cancelled (Ptr demo_group) demo_registered)) =
     trace demo_registered @ [allocator_Reset (allocator demo_group), wg_Done] \<and>
   \<not> reset_pairing demo_group None
       (trace (snd (updateAllocator env_cancelled (Ptr demo_group) demo_registered)))"
proof -
  have d: "Done env_cancelled (parentCtx demo_group) (world demo_registered)"
    by (simp add: env_cancelled_def env_ok_def)
  have u: "trace (snd (updateAllocator env_cancelled (Ptr demo_group) demo_registered)) =
     trace demo_registered @ [allocator_Reset (allocator demo_group), wg_Done]"
    using d by (simp add: updateAllocator_def)
  show ?thesis
    unfolding u using d by (simp add: demo_registered_trace section_pairs_resets_def)
qed

text \<open>
  C1, amended. \<open>resetAllocatorGroup\<close> on a label with a group calls \<open>Lock\<close>, \<open>Reset\<close>
  of the group's allocator, \<open>Reset\<close> of the group's leadership and \<open>Unlock\<close>, in this
  order, so the two resets are paired in one critical section. The update worker on a
  group whose parent context is done calls \<open>Reset\<close> of the allocator and then
  \<open>wg.Done()\<close>: the leadership is not reset on this path.
\<close>

theorem resetAllocatorGroup_pairs_resets:
  "(map_of (allocatorGroups (manager s)) dc = Some (Ptr g) \<longrightarrow>
      trace (snd (resetAllocatorGroup E dc s)) =
        trace s @ [am_Lock, allocator_Reset (allocator g), leadership_Reset (leadership g),
                   am_Unlock] \<and>
      reset_pairing g None
        [am_Lock, allocator_Reset (allocator g), leadership_Reset (leadership g), am_Unlock]) \<and>
   (Done E (parentCtx g) (world s) \<longrightarrow>
      trace (snd (updateAllocator E (Ptr g) s)) =
        trace s @ [allocator_Reset (allocator g), wg_Done])"
  by (simp add: resetAllocatorGroup_present updateAllocator_def section_pairs_resets_def)

theorem resetAllocatorGroup_pairs_resets_witness:
  "map_of (allocatorGroups (manager demo_registered)) ''dc-1'' = Some (Ptr demo_group) \<and>
   trace (snd (resetAllocatorGroup env_ok ''dc-1'' demo_registered)) =
     trace demo_registered @
       [am_Lock, allocator_Reset (allocator demo_group), leadership_Reset (Leadership 2),
        am_Unlock] \<and>
   reset_pairing demo_group None
     [am_Lock, allocator_Reset (allocator demo_group), leadership_Reset (Leadership 2),
      am_Unlock] \<and>
   Done env_cancelled (parentCtx demo_group) (world demo_registered) \<and>
   trace (snd (updateAllocator env_cancelled (Ptr demo_group) demo_registered)) =
     trace demo_registered @ [allocator_Reset (allocator demo_group), wg_Done]"
proof -
  have p: "map_of (allocatorGroups (manager demo_registered)) ''dc-1'' = Some (Ptr demo_group)"
    by (simp add: demo_registered_groups)
  have d: "Done env_cancelled (parentCtx demo_group) (world demo_registered)"
    by (simp add: env_cancelled_def env_ok_def)
  have l: "leadership demo_group = Leadership 2"
    by (simp add: demo_group_def)
  show ?thesis
    using p d
      resetAllocatorGroup_pairs_resets
        [where s = demo_registered and dc = "''dc-1''" and g = demo_group and E = env_ok]
      resetAllocatorGroup_pairs_resets
        [where s = demo_registered and dc = "''dc-1''" and g = demo_group and E = env_cancelled]
    by (simp add: l)
qed

subsection \<open>The shared lock of the dispatcher\<close>

text \<open>
  C3, as the spec states it: \<open>GenerateTSO\<close> is called after the shared lock has been
  released. In the code the \<open>RUnlock\<close> is deferred, so the allocator answers while the
  lock is held.
\<close>

theorem GenerateTSO_outside_RLock_counterexample:
  "map_of (allocatorGroups (manager demo_registered)) ''dc-1'' = Some (Ptr demo_group) \<and>
   trace (snd (HandleTSORequest env_ok ''dc-1'' 5 demo_registered)) =
     trace demo_registered @
       [am_RLock, allocator_GenerateTSO (allocator demo_group) 5, am_RUnlock] \<and>
   \<not> GenerateTSO_outside_RLock False
       (trace (snd (HandleTSORequest env_ok ''dc-1'' 5 demo_registered)))"
proof -
  have p: "map_of (allocatorGroups (manager demo_registered)) ''dc-1'' = Some (Ptr demo_group)"
    by (simp add: demo_registered_groups)
  have u: "trace (snd (HandleTSORequest env_ok ''dc-1'' 5 demo_registered)) =
     trace demo_registered @
       [am_RLock, allocator_GenerateTSO (allocator demo_group) 5, am_RUnlock]"
    using p by (simp add: HandleTSORequest_def call_def split: prod.splits)
  show ?thesis
    unfolding u using p by (simp add: demo_registered_trace)
qed

text \<open>
  C3, amended. For a label with a group, \<open>HandleTSORequest\<close> calls \<open>RLock\<close>,
  \<open>GenerateTSO(count)\<close> of the group's allocator and \<open>RUnlock\<close>, in this order: the
  shared lock is held across the lookup and the allocator's call and released when the
  function returns. For a label with no entry the calls are \<open>RLock\<close> and \<open>RUnlock\<close>.
\<close>

theorem HandleTSORequest_lock_extent:
  "(map_of (allocatorGroups (manager s)) dc = Some (Ptr g) \<longrightarrow>
      trace (snd (HandleTSORequest E dc count s)) =
        trace s @ [am_RLock, allocator_GenerateTSO (allocator g) count, am_RUnlock]) \<and>
   (map_of (allocatorGroups (manager s)) dc = None \<longrightarrow>
      trace (snd (HandleTSORequest E dc count s)) = trace s @ [am_RLock, am_RUnlock])"
  by (simp add: HandleTSORequest_def call_def split: prod.splits)

theorem HandleTSORequest_lock_extent_witness:
  "map_of (allocatorGroups (manager demo_registered)) ''dc-1'' = Some (Ptr demo_group) \<and>
   trace (snd (HandleTSORequest env_ok ''dc-1'' 5 demo_registered)) =
     trace demo_registered @
       [am_RLock, allocator_GenerateTSO (allocator demo_group) 5, am_RUnlock] \<and>
   map_of (allocatorGroups (manager demo_registered)) ''dc-east'' = None \<and>
   trace (snd (HandleTSORequest env_ok ''dc-east'' 1 demo_registered)) =
     trace demo_registered @ [am_RLock, am_RUnlock]"
proof -
  have p: "map_of (allocatorGroups (manager demo_registered)) ''dc-1'' = Some (Ptr demo_group)"
    by (simp add: demo_registered_groups)
  have a: "map_of (allocatorGroups (manager demo_registered)) ''dc-east'' = None"
    by (simp add: demo_registered_groups)
  show ?thesis
    using p a
      HandleTSORequest_lock_extent
        [where s = demo_registered and dc = "''dc-1''" and g = demo_group and E = env_ok
           and count = 5]
      HandleTSORequest_lock_extent
        [where s = demo_registered and dc = "''dc-east''" and g = demo_group and E = env_ok
           and count = 1]
    by simp
qed

subsection \<open>The campaign helper\<close>

text \<open>
  The bound on the turns of the tick loop is only a bound: a loop that has ended within
  \<open>n\<close> turns has ended, in the same state, within any larger number. The loop leaves the
  manager as it is and only adds to the trace.
\<close>

lemma leaderTick_loop_more:
  "leaderTick_loop E n ctx a s = Some s' \<Longrightarrow> leaderTick_loop E (n + k) ctx a s = Some s'"
proof (induction n arbitrary: s)
  case 0
  then show ?case by simp
next
  case (Suc n)
  then show ?case
    by (auto split: prod.splits select_case.splits bool.splits)
qed

lemma leaderTick_loop_trace:
  "leaderTick_loop E n ctx a s = Some s' \<Longrightarrow>
   manager s' = manager s \<and> (\<exists>es. trace s' = trace s @ es)"
proof (induction n arbitrary: s)
  case 0
  then show ?case by simp
next
  case (Suc n)
  obtain c w where sel: "select_tick E ctx (world s) = (c, w)" by (cases "select_tick E ctx (world s)")
  show ?case
  proof (cases c)
    case ctx_Done
    with Suc.prems sel show ?thesis by auto
  next
    case leaderTicker_C
    obtain b s1 where st: "call (allocator_IsStillAllocatorLeader a) (IsStillAllocatorLeader E a)
                  (s\<lparr>world := w\<rparr>) = (b, s1)"
      by (cases "call (allocator_IsStillAllocatorLeader a) (IsStillAllocatorLeader E a)
                  (s\<lparr>world := w\<rparr>)")
    have s1: "manager s1 = manager s" "trace s1 = trace s @ [allocator_IsStillAllocatorLeader a]"
      using st by (auto simp: call_def split: prod.splits)
    show ?thesis
    proof (cases b)
      case False
      with Suc.prems sel leaderTicker_C st s1 show ?thesis by auto
    next
      case True
      with Suc.prems sel leaderTicker_C st have "leaderTick_loop E n ctx a s1 = Some s'"
        by simp
      from Suc.IH [OF this] s1 show ?thesis by auto
    qed
  qed
qed

lemma campaignAllocatorLeader_more:
  assumes "campaignAllocatorLeader E n pctx ap s = Some x"
  shows "campaignAllocatorLeader E (n + k) pctx ap s = Some x"
  using assms
  by (auto simp: campaignAllocatorLeader_def Let_def leaderTick_loop_more
      split: ptr.splits prod.splits option.splits)

text \<open>
  C6. Let the campaign succeed and \<open>WithCancel\<close> give the child context with its cancel
  function. Whenever the helper returns, its last steps are \<open>resetAllocatorGroup\<close> of
  the allocator's label and then the cancel function of the child context, run from
  a state reached after the campaign, \<open>WithCancel\<close> and the start of the keep-alive.
  When \<open>Initialize\<close> fails and the label has a group, the helper returns for every
  bound on the loop, and the calls it has made are the campaign, \<open>WithCancel\<close>, the
  keep-alive, \<open>Initialize\<close>, then \<open>Lock\<close>, the reset of the group's allocator, the
  reset of its leadership, \<open>Unlock\<close>, and the cancel function.
\<close>

theorem campaignAllocatorLeader_exit:
  assumes "CampaignAllocatorLeader E a defaultAllocatorLeaderLease (world s) = (None, w1)"
    and "WithCancel E pctx w1 = ((ctx, cancel_f), w2)"
  shows "(\<forall>n r s'. campaignAllocatorLeader E n pctx (Ptr a) s = Some (r, s') \<longrightarrow>
            (\<exists>s0 es. manager s0 = manager s \<and>
               trace s0 = trace s @
                 [allocator_CampaignAllocatorLeader a defaultAllocatorLeaderLease,
                  context_WithCancel pctx, go (go_KeepAllocatorLeader ctx a)] @ es \<and>
               (case resetAllocatorGroup E (allocator_dcLocation a) s0 of
                  (r0, s1) \<Rightarrow>
                    r = r0 \<and> s' = call0 (call_CancelFunc cancel_f) (cancel E cancel_f) s1))) \<and>
         (\<forall>err w3 g.
            Initialize E (LocalAllocator a) w2 = (Some err, w3) \<and>
            map_of (allocatorGroups (manager s)) (allocator_dcLocation a) = Some (Ptr g) \<longrightarrow>
            (\<forall>n. campaignAllocatorLeader E n pctx (Ptr a) s =
               Some (Return (),
                 s\<lparr>world := cancel E cancel_f
                      (Leadership_Reset E (leadership g) (Reset E (allocator g) w3)),
                   trace := trace s @
                     [allocator_CampaignAllocatorLeader a defaultAllocatorLeaderLease,
                      context_WithCancel pctx, go (go_KeepAllocatorLeader ctx a),
                      allocator_Initialize (LocalAllocator a),
                      am_Lock, allocator_Reset (allocator g), leadership_Reset (leadership g),
                      am_Unlock, call_CancelFunc cancel_f]\<rparr>)))"
proof (intro conjI allI impI)
  fix n r s'
  assume run: "campaignAllocatorLeader E n pctx (Ptr a) s = Some (r, s')"
  let ?s3 = "s\<lparr>world := w2, trace := trace s @
                 [allocator_CampaignAllocatorLeader a defaultAllocatorLeaderLease,
                  context_WithCancel pctx, go (go_KeepAllocatorLeader ctx a)]\<rparr>"
  obtain e w3 where init: "Initialize E (LocalAllocator a) w2 = (e, w3)"
    by (cases "Initialize E (LocalAllocator a) w2")
  let ?s4 = "?s3\<lparr>world := w3, trace := trace ?s3 @ [allocator_Initialize (LocalAllocator a)]\<rparr>"
  show "\<exists>s0 es. manager s0 = manager s \<and>
               trace s0 = trace s @
                 [allocator_CampaignAllocatorLeader a defaultAllocatorLeaderLease,
                  context_WithCancel pctx, go (go_KeepAllocatorLeader ctx a)] @ es \<and>
               (case resetAllocatorGroup E (allocator_dcLocation a) s0 of
                  (r0, s1) \<Rightarrow>
                    r = r0 \<and> s' = call0 (call_CancelFunc cancel_f) (cancel E cancel_f) s1)"
  proof (cases e)
    case (Some err)
    have "(r, s') = campaign_deferred E cancel_f (allocator_dcLocation a) ?s4"
      using run assms init Some
      by (simp add: campaignAllocatorLeader_def call_def Let_def emit_def)
    then show ?thesis
      by (intro exI [of _ ?s4] exI [of _ "[allocator_Initialize (LocalAllocator a)]"])
         (auto simp: campaign_deferred_def split: prod.splits)
  next
    case None
    let ?s6 = "emit (time_NewTicker leaderTickInterval)
                 (call0 (allocator_EnableAllocatorLeader a) (EnableAllocatorLeader E a) ?s4)"
    from run assms init None obtain s7 where
      loop: "leaderTick_loop E n ctx a ?s6 = Some s7" and
      res: "(r, s') = campaign_deferred E cancel_f (allocator_dcLocation a) (emit ticker_Stop s7)"
      by (auto simp: campaignAllocatorLeader_def call_def Let_def emit_def split: option.splits)
    from leaderTick_loop_trace [OF loop] obtain es where
      m: "manager s7 = manager s" and t: "trace s7 = trace ?s6 @ es"
      by auto
    show ?thesis
      using res m t
      by (intro exI [of _ "emit ticker_Stop s7"]
            exI [of _ "[allocator_Initialize (LocalAllocator a),
                        allocator_EnableAllocatorLeader a, time_NewTicker leaderTickInterval]
                       @ es @ [ticker_Stop]"])
         (auto simp: campaign_deferred_def split: prod.splits)
  qed
next
  fix err w3 g n
  assume h: "Initialize E (LocalAllocator a) w2 = (Some err, w3) \<and>
            map_of (allocatorGroups (manager s)) (allocator_dcLocation a) = Some (Ptr g)"
  then show "campaignAllocatorLeader E n pctx (Ptr a) s =
               Some (Return (),
                 s\<lparr>world := cancel E cancel_f
                      (Leadership_Reset E (leadership g) (Reset E (allocator g) w3)),
                   trace := trace s @
                     [allocator_CampaignAllocatorLeader a defaultAllocatorLeaderLease,
                      context_WithCancel pctx, go (go_KeepAllocatorLeader ctx a),
                      allocator_Initialize (LocalAllocator a),
                      am_Lock, allocator_Reset (allocator g), leadership_Reset (leadership g),
                      am_Unlock, call_CancelFunc cancel_f]\<rparr>)"
    using assms
    by (simp add: campaignAllocatorLeader_def call_def Let_def emit_def campaign_deferred_def
        resetAllocatorGroup_present call0_def)
qed

theorem campaignAllocatorLeader_exit_witness:
  "CampaignAllocatorLeader env_ok demo_local_allocator defaultAllocatorLeaderLease
     (world demo_registered) = (None, ()) \<and>
   WithCancel env_ok (Context 2) () = ((Context 1, CancelFunc 1), ()) \<and>
   campaignAllocatorLeader env_ok 1 (Context 2) (Ptr demo_local_allocator) demo_registered =
     Some (Return (),
       demo_registered\<lparr>trace := trace demo_registered @
         [allocator_CampaignAllocatorLeader demo_local_allocator 3,
          context_WithCancel (Context 2),
          go (go_KeepAllocatorLeader (Context 1) demo_local_allocator),
          allocator_Initialize (LocalAllocator demo_local_allocator),
          allocator_EnableAllocatorLeader demo_local_allocator,
          time_NewTicker 50000000,
          allocator_IsStillAllocatorLeader demo_local_allocator,
          ticker_Stop,
          am_Lock, allocator_Reset (LocalAllocator demo_local_allocator),
          leadership_Reset (Leadership 2), am_Unlock,
          call_CancelFunc (CancelFunc 1)]\<rparr>) \<and>
   campaignAllocatorLeader env_init_fails 0 (Context 2) (Ptr demo_local_allocator)
     demo_registered =
     Some (Return (),
       demo_registered\<lparr>trace := trace demo_registered @
         [allocator_CampaignAllocatorLeader demo_local_allocator 3,
          context_WithCancel (Context 2),
          go (go_KeepAllocatorLeader (Context 1) demo_local_allocator),
          allocator_Initialize (LocalAllocator demo_local_allocator),
          am_Lock, allocator_Reset (LocalAllocator demo_local_allocator),
          leadership_Reset (Leadership 2), am_Unlock,
          call_CancelFunc (CancelFunc 1)]\<rparr>)"
proof -
  have c: "CampaignAllocatorLeader env_ok demo_local_allocator defaultAllocatorLeaderLease
     (world demo_registered) = (None, ())"
    by (simp add: env_ok_def)
  have w: "WithCancel env_ok (Context 2) () = ((Context 1, CancelFunc 1), ())"
    by (simp add: env_ok_def)
  have c': "CampaignAllocatorLeader env_init_fails demo_local_allocator
     defaultAllocatorLeaderLease (world demo_registered) = (None, ())"
    by (simp add: env_init_fails_def env_ok_def)
  have w': "WithCancel env_init_fails (Context 2) () = ((Context 1, CancelFunc 1), ())"
    by (simp add: env_init_fails_def env_ok_def)
  have i': "Initialize env_init_fails (LocalAllocator demo_local_allocator) () =
      (Some (ErrOther ''load timestamp''), ())"
    by (simp add: env_init_fails_def env_ok_def)
  have dc: "allocator_dcLocation demo_local_allocator = ''dc-1''"
    by (simp add: demo_local_allocator_def)
  have p: "map_of (allocatorGroups (manager demo_registered))
      (allocator_dcLocation demo_local_allocator) = Some (Ptr demo_group)"
    by (simp add: dc demo_registered_groups)
  have g: "allocator demo_group = LocalAllocator demo_local_allocator"
    "leadership demo_group = Leadership 2"
    by (simp_all add: demo_group_def demo_local_allocator_def)
  have fails: "campaignAllocatorLeader env_init_fails 0 (Context 2) (Ptr demo_local_allocator)
     demo_registered =
     Some (Return (),
       demo_registered\<lparr>trace := trace demo_registered @
         [allocator_CampaignAllocatorLeader demo_local_allocator 3,
          context_WithCancel (Context 2),
          go (go_KeepAllocatorLeader (Context 1) demo_local_allocator),
          allocator_Initialize (LocalAllocator demo_local_allocator),
          am_Lock, allocator_Reset (LocalAllocator demo_local_allocator),
          leadership_Reset (Leadership 2), am_Unlock,
          call_CancelFunc (CancelFunc 1)]\<rparr>)"
    using campaignAllocatorLeader_exit [OF c' w'] i' p
    by (simp add: g defaultAllocatorLeaderLease_def)
  have runs: "campaignAllocatorLeader env_ok 1 (Context 2) (Ptr demo_local_allocator)
      demo_registered =
     Some (Return (),
       demo_registered\<lparr>trace := trace demo_registered @
         [allocator_CampaignAllocatorLeader demo_local_allocator 3,
          context_WithCancel (Context 2),
          go (go_KeepAllocatorLeader (Context 1) demo_local_allocator),
          allocator_Initialize (LocalAllocator demo_local_allocator),
          allocator_EnableAllocatorLeader demo_local_allocator,
          time_NewTicker 50000000,
          allocator_IsStillAllocatorLeader demo_local_allocator,
          ticker_Stop,
          am_Lock, allocator_Reset (LocalAllocator demo_local_allocator),
          leadership_Reset (Leadership 2), am_Unlock,
          call_CancelFunc (CancelFunc 1)]\<rparr>)"
    using p
    by (simp add: campaignAllocatorLeader_def call_def Let_def emit_def call0_def
        campaign_deferred_def resetAllocatorGroup_present g env_ok_def
        defaultAllocatorLeaderLease_def leaderTickInterval_def)
  show ?thesis
    using c w fails runs by simp
qed


subsection \<open>The persistence path\<close>

text \<open>The examples that the documentation of the library gives for the two functions.\<close>

lemma Clean_examples:
  "Clean ''a/c'' = ''a/c''"
  "Clean ''a//c'' = ''a/c''"
  "Clean ''a/c/.'' = ''a/c''"
  "Clean ''a/c/b/..'' = ''a/c''"
  "Clean ''/../a/c'' = ''/a/c''"
  "Clean ''/../a/b/../././/c'' = ''/a/c''"
  "Clean [] = ''.''"
  by (simp_all add: Clean_def Clean_step_def backtrack.simps)

lemma path_Join_examples:
  "path_Join [''a'', ''b'', ''c''] = ''a/b/c''"
  "path_Join [''a'', ''b/c''] = ''a/b/c''"
  "path_Join [''a/b'', ''c''] = ''a/b/c''"
  "path_Join [''a/b'', ''../../../xyz''] = ''../xyz''"
  "path_Join [[], []] = []"
  "path_Join [''a'', []] = ''a''"
  "path_Join [[], ''a''] = ''a''"
  by (simp_all add: path_Join_def Clean_def Clean_step_def backtrack.simps)

text \<open>
  The loop of \<open>Clean\<close> reads a path element by element: what it does to \<open>p\<close> is the
  same whether \<open>p\<close> ends the path or a slash follows it.
\<close>

lemma takeWhile_upto_sep:
  "takeWhile (\<lambda>x. x \<noteq> s) (cs @ s # q) = takeWhile (\<lambda>x. x \<noteq> s) cs"
  by (induction cs) auto

lemma dropWhile_upto_sep:
  "dropWhile (\<lambda>x. x \<noteq> s) (cs @ s # q) = dropWhile (\<lambda>x. x \<noteq> s) cs @ s # q"
  by (induction cs) auto

lemma Clean_step_slash: "Clean_step rooted CHR ''/'' cs out dd = (cs, out, dd)"
  by (simp add: Clean_step_def)

lemma Clean_step_dot:
  "cs = [] \<or> hd cs = CHR ''/'' \<Longrightarrow> Clean_step rooted CHR ''.'' cs out dd = (cs, out, dd)"
  by (simp add: Clean_step_def)

lemma Clean_step_dotdot:
  assumes "\<not> (cs = [] \<or> hd cs = CHR ''/'')" "hd cs = CHR ''.''"
    "tl cs = [] \<or> hd (tl cs) = CHR ''/''"
  shows "Clean_step rooted CHR ''.'' cs out dd =
     (if length out > dd then (tl cs, take (backtrack out dd (length out - 1)) out, dd)
      else if \<not> rooted then
        (tl cs, (if length out > 0 then out @ ''/'' else out) @ ''..'',
         length ((if length out > 0 then out @ ''/'' else out) @ ''..''))
      else (tl cs, out, dd))"
  using assms unfolding Clean_step_def Let_def by simp

lemma Clean_step_elem:
  assumes "c \<noteq> CHR ''/''" "\<not> (c = CHR ''.'' \<and> (cs = [] \<or> hd cs = CHR ''/''))"
    "\<not> (c = CHR ''.'' \<and> hd cs = CHR ''.'' \<and> (tl cs = [] \<or> hd (tl cs) = CHR ''/''))"
  shows "Clean_step rooted c cs out dd =
     (dropWhile (\<lambda>x. x \<noteq> CHR ''/'') cs,
      (if rooted \<and> length out \<noteq> 1 \<or> \<not> rooted \<and> length out \<noteq> 0 then out @ ''/'' else out)
        @ c # takeWhile (\<lambda>x. x \<noteq> CHR ''/'') cs, dd)"
  unfolding Clean_step_def Let_def using assms by (simp only: if_False)

lemma Clean_step_append:
  "Clean_step rooted c (cs @ CHR ''/'' # q) out dd =
     (case Clean_step rooted c cs out dd of
        (rest, out', dd') \<Rightarrow> (rest @ CHR ''/'' # q, out', dd'))"
proof -
  let ?ext = "cs @ CHR ''/'' # q"
  have c2: "(?ext = [] \<or> hd ?ext = CHR ''/'') \<longleftrightarrow> (cs = [] \<or> hd cs = CHR ''/'')"
    by (cases cs) auto
  have h3: "hd ?ext = hd cs" and t3: "tl ?ext = tl cs @ CHR ''/'' # q" if "cs \<noteq> []"
    using that by simp_all
  have c3: "(tl ?ext = [] \<or> hd (tl ?ext) = CHR ''/'') \<longleftrightarrow> (tl cs = [] \<or> hd (tl cs) = CHR ''/'')"
    if "cs \<noteq> []"
    unfolding t3 [OF that] by (cases "tl cs") simp_all
  consider (slash) "c = CHR ''/''"
    | (dot) "c = CHR ''.''" "cs = [] \<or> hd cs = CHR ''/''"
    | (dotdot) "c = CHR ''.''" "\<not> (cs = [] \<or> hd cs = CHR ''/'')" "hd cs = CHR ''.''"
        "tl cs = [] \<or> hd (tl cs) = CHR ''/''"
    | (elem) "c \<noteq> CHR ''/''" "\<not> (c = CHR ''.'' \<and> (cs = [] \<or> hd cs = CHR ''/''))"
        "\<not> (c = CHR ''.'' \<and> hd cs = CHR ''.'' \<and> (tl cs = [] \<or> hd (tl cs) = CHR ''/''))"
    by blast
  then show ?thesis
  proof cases
    case slash
    then show ?thesis by (simp add: Clean_step_slash)
  next
    case dot
    from dot(2) have "?ext = [] \<or> hd ?ext = CHR ''/''" using c2 by blast
    then show ?thesis
      unfolding dot(1) Clean_step_dot [OF dot(2)]
        Clean_step_dot [OF \<open>?ext = [] \<or> hd ?ext = CHR ''/''\<close>]
      by (simp only: prod.case)
  next
    case dotdot
    from dotdot(2) have ne: "cs \<noteq> []" by blast
    have e2: "\<not> (?ext = [] \<or> hd ?ext = CHR ''/'')" using dotdot(2) c2 by blast
    have e3: "hd ?ext = CHR ''.''" using dotdot(3) h3 [OF ne] by simp
    have e4: "tl ?ext = [] \<or> hd (tl ?ext) = CHR ''/''" using dotdot(4) c3 [OF ne] by blast
    show ?thesis
      unfolding dotdot(1) Clean_step_dotdot [OF dotdot(2,3,4)] Clean_step_dotdot [OF e2 e3 e4]
        t3 [OF ne]
      by (simp only: if_distrib [of "case_prod _"] prod.case)
  next
    case elem
    have e2: "\<not> (c = CHR ''.'' \<and> (?ext = [] \<or> hd ?ext = CHR ''/''))"
      using elem(2) c2 by blast
    have e3: "\<not> (c = CHR ''.'' \<and> hd ?ext = CHR ''.'' \<and>
        (tl ?ext = [] \<or> hd (tl ?ext) = CHR ''/''))"
    proof (cases "cs = []")
      case True
      then show ?thesis by simp
    next
      case False
      then show ?thesis using elem(3) c3 [OF False] h3 [OF False] by simp
    qed
    show ?thesis
      unfolding Clean_step_elem [OF elem] Clean_step_elem [OF elem(1) e2 e3]
        takeWhile_upto_sep dropWhile_upto_sep
      by (simp only: prod.case)
  qed
qed

lemma Clean_loop_append:
  "Clean_loop rooted (p @ CHR ''/'' # q) out dd =
     (case Clean_loop rooted p out dd of (out', dd') \<Rightarrow> Clean_loop rooted q out' dd')"
proof (induction rooted p out dd rule: Clean_loop.induct)
  case (1 rooted out dotdot)
  show ?case by (simp add: Clean_step_slash)
next
  case (2 rooted c cs out dotdot)
  obtain rest out' dd' where st: "Clean_step rooted c cs out dotdot = (rest, out', dd')"
    by (cases "Clean_step rooted c cs out dotdot")
  have "Clean_loop rooted ((c # cs) @ CHR ''/'' # q) out dotdot =
      Clean_loop rooted (rest @ CHR ''/'' # q) out' dd'"
    by (simp add: Clean_step_append st)
  also have "\<dots> = (case Clean_loop rooted rest out' dd' of
      (out'', dd'') \<Rightarrow> Clean_loop rooted q out'' dd'')"
    using "2.IH" [OF st [symmetric] refl] .
  also have "\<dots> = (case Clean_loop rooted (c # cs) out dotdot of
      (out'', dd'') \<Rightarrow> Clean_loop rooted q out'' dd'')"
    by (simp add: st)
  finally show ?case .
qed

text \<open>
  A plain name is copied to the buffer. So joining a plain name to a path makes the
  buffer of the path, a slash where one is due, and the name; and no path is the result
  of joining a plain name to itself (by induction on the length of the path: the buffer
  of such a path would be a shorter one).
\<close>

lemma Clean_buffer_Clean:
  "p \<noteq> [] \<Longrightarrow> Clean p = (if Clean_buffer p = [] then ''.'' else Clean_buffer p)"
  by (simp add: Clean_def Clean_buffer_def Let_def)

lemma Clean_loop_plain:
  assumes "plain_label dc"
  shows "Clean_loop rooted dc out dd = (out @ slash_before rooted out @ dc, dd)"
proof -
  from assms obtain c cs where dc: "dc = c # cs" by (cases dc) (auto simp: plain_label_def)
  from assms have noslash: "c \<noteq> CHR ''/''" "CHR ''/'' \<notin> set cs"
    by (auto simp: plain_label_def dc)
  have c2: "\<not> (c = CHR ''.'' \<and> (cs = [] \<or> hd cs = CHR ''/''))"
  proof
    assume a: "c = CHR ''.'' \<and> (cs = [] \<or> hd cs = CHR ''/'')"
    then have "cs \<noteq> []" using assms by (auto simp: plain_label_def dc)
    then have "hd cs \<in> set cs" by simp
    with a noslash \<open>cs \<noteq> []\<close> show False by auto
  qed
  have c3: "\<not> (c = CHR ''.'' \<and> hd cs = CHR ''.'' \<and> (tl cs = [] \<or> hd (tl cs) = CHR ''/''))"
  proof
    assume a: "c = CHR ''.'' \<and> hd cs = CHR ''.'' \<and> (tl cs = [] \<or> hd (tl cs) = CHR ''/'')"
    then have ne: "cs \<noteq> []" using assms by (auto simp: plain_label_def dc)
    show False
    proof (cases "tl cs = []")
      case True
      with ne a have "cs = ''.''" by (cases cs) auto
      with a assms show False by (simp add: plain_label_def dc)
    next
      case False
      then have "hd (tl cs) \<in> set (tl cs)" by simp
      then have "hd (tl cs) \<in> set cs" using ne by (cases cs) auto
      with a False noslash show False by auto
    qed
  qed
  have tw: "takeWhile (\<lambda>x. x \<noteq> CHR ''/'') cs = cs" "dropWhile (\<lambda>x. x \<noteq> CHR ''/'') cs = []"
    using noslash(2) by (auto simp: takeWhile_eq_all_conv)
  show ?thesis
  proof (cases "rooted \<and> length out \<noteq> 1 \<or> \<not> rooted \<and> length out \<noteq> 0")
    case True
    show ?thesis
      unfolding dc Clean_loop.simps Clean_step_elem [OF noslash(1) c2 c3] tw slash_before_def
      by (simp only: True if_True prod.case Clean_loop.simps append_assoc)
  next
    case False
    show ?thesis
      unfolding dc Clean_loop.simps Clean_step_elem [OF noslash(1) c2 c3] tw slash_before_def
      by (simp only: False if_False prod.case Clean_loop.simps append_Nil)
  qed
qed

lemma Clean_buffer_append:
  assumes "plain_label dc" "p \<noteq> []"
  shows "Clean_buffer (p @ CHR ''/'' # dc) =
     Clean_buffer p @ slash_before (hd p = CHR ''/'') (Clean_buffer p) @ dc"
proof (cases "hd p = CHR ''/''")
  case True
  have "Clean_buffer (p @ CHR ''/'' # dc) = fst (Clean_loop True (tl p @ CHR ''/'' # dc) ''/'' 1)"
    using True assms(2) by (simp add: Clean_buffer_def)
  also have "\<dots> = fst (case Clean_loop True (tl p) ''/'' 1 of
      (out', dd') \<Rightarrow> Clean_loop True dc out' dd')"
    by (simp only: Clean_loop_append)
  also have "\<dots> = Clean_buffer p @ slash_before True (Clean_buffer p) @ dc"
    using True by (cases "Clean_loop True (tl p) ''/'' 1")
      (simp add: Clean_loop_plain [OF assms(1)] Clean_buffer_def)
  finally show ?thesis using True by simp
next
  case False
  have "Clean_buffer (p @ CHR ''/'' # dc) = fst (Clean_loop False (p @ CHR ''/'' # dc) [] 0)"
    using False assms(2) by (simp add: Clean_buffer_def)
  also have "\<dots> = fst (case Clean_loop False p [] 0 of
      (out', dd') \<Rightarrow> Clean_loop False dc out' dd')"
    by (simp only: Clean_loop_append)
  also have "\<dots> = Clean_buffer p @ slash_before False (Clean_buffer p) @ dc"
    using False by (cases "Clean_loop False p [] 0")
      (simp add: Clean_loop_plain [OF assms(1)] Clean_buffer_def)
  finally show ?thesis using False by simp
qed

lemma Clean_buffer_plain:
  assumes "plain_label dc"
  shows "Clean_buffer dc = dc" and "Clean_buffer (CHR ''/'' # dc) = CHR ''/'' # dc"
proof -
  from assms have "dc \<noteq> []" "CHR ''/'' \<notin> set dc" by (simp_all add: plain_label_def)
  then have "hd dc \<noteq> CHR ''/''" by (cases dc) auto
  then show "Clean_buffer dc = dc"
    by (simp add: Clean_buffer_def Clean_loop_plain [OF assms] slash_before_def)
  show "Clean_buffer (CHR ''/'' # dc) = CHR ''/'' # dc"
    by (simp add: Clean_buffer_def Clean_loop_plain [OF assms] slash_before_def)
qed

lemma Clean_buffer_no_fixpoint:
  assumes dc: "plain_label dc"
  shows "p \<noteq> [] \<Longrightarrow>
    Clean_buffer p @ slash_before (hd p = CHR ''/'') (Clean_buffer p) @ dc \<noteq> p"
proof (induction p rule: length_induct)
  case (1 p)
  let ?B = "Clean_buffer p"
  let ?rooted = "hd p = CHR ''/''"
  from dc have dcne: "dc \<noteq> []" by (simp add: plain_label_def)
  show ?case
  proof
    assume eq: "?B @ slash_before ?rooted ?B @ dc = p"
    show False
    proof (cases "slash_before ?rooted ?B = []")
      case True
      then have shape: "(?rooted \<longrightarrow> length ?B = 1) \<and> (\<not> ?rooted \<longrightarrow> length ?B = 0)"
        by (auto simp: slash_before_def split: if_splits)
      from eq True have p: "p = ?B @ dc" by simp
      show False
      proof (cases ?rooted)
        case True
        with shape obtain b where b: "?B = [b]" by (cases ?B) auto
        with p True have "p = CHR ''/'' # dc" by (metis append_Cons append_Nil list.sel(1))
        then have "?B = CHR ''/'' # dc" using Clean_buffer_plain(2) [OF dc] by simp
        with b dcne show False by simp
      next
        case False
        with shape have "?B = []" by simp
        with p have "p = dc" by simp
        then have "?B = dc" using Clean_buffer_plain(1) [OF dc] by simp
        with \<open>?B = []\<close> dcne show False by simp
      qed
    next
      case False
      then have sl: "slash_before ?rooted ?B = ''/''"
        by (simp add: slash_before_def split: if_splits)
      with eq have p: "p = ?B @ CHR ''/'' # dc" by simp
      show False
      proof (cases "?B = []")
        case True
        with p have "p = CHR ''/'' # dc" by simp
        then have "?B = CHR ''/'' # dc" using Clean_buffer_plain(2) [OF dc] by simp
        with True show False by simp
      next
        case False
        have shorter: "length ?B < length p"
          by (subst (2) p) simp
        have "Clean_buffer (?B @ CHR ''/'' # dc) =
            Clean_buffer ?B @ slash_before (hd ?B = CHR ''/'') (Clean_buffer ?B) @ dc"
          by (rule Clean_buffer_append [OF dc False])
        then have "?B = Clean_buffer ?B @ slash_before (hd ?B = CHR ''/'') (Clean_buffer ?B) @ dc"
          using p by simp
        moreover have "Clean_buffer ?B @ slash_before (hd ?B = CHR ''/'') (Clean_buffer ?B) @ dc
            \<noteq> ?B"
          using "1.IH" shorter False by blast
        ultimately show False by simp
      qed
    qed
  qed
qed

lemma path_Join_plain_label:
  assumes "plain_label dc"
  shows "path_Join [root, dc] \<noteq> root"
proof (cases "root = []")
  case True
  from assms have "dc \<noteq> []" by (simp add: plain_label_def)
  then have "path_Join [root, dc] = Clean dc"
    using True by (simp add: path_Join_def)
  moreover have "Clean dc \<noteq> []"
    by (simp add: Clean_def Let_def)
  ultimately show ?thesis using True by simp
next
  case False
  from assms have dcne: "dc \<noteq> []" by (simp add: plain_label_def)
  have "path_Join [root, dc] = Clean (root @ CHR ''/'' # dc)"
    using False by (simp add: path_Join_def)
  also have "\<dots> = Clean_buffer root @ slash_before (hd root = CHR ''/'') (Clean_buffer root) @ dc"
    using dcne by (simp add: Clean_buffer_Clean Clean_buffer_append [OF assms False])
  finally show ?thesis
    using Clean_buffer_no_fixpoint [OF assms False] by simp
qed

text \<open>
  C9, as the spec states it: the path is \<open>rootPath\<close> exactly when the label is the
  Global one. \<open>path.Join\<close> cleans the joined path, so the label \<open>.\<close>, which is not the
  Global label, gives \<open>rootPath\<close> as well.
\<close>

theorem getAllocatorPath_counterexample:
  "''.'' \<noteq> GlobalDCLocation env_ok \<and>
   getAllocatorPath env_ok demo_manager ''.'' = rootPath demo_manager"
  by (simp add: getAllocatorPath_def env_ok_def demo_manager_def NewAllocatorManager_def
      path_Join_def Clean_def Clean_step_def)

text \<open>
  C9, amended. The path is \<open>rootPath\<close> when the label is the Global one, and
  \<open>path.Join(rootPath, dcLocation)\<close> for every other label; for a label that is a plain
  name, the path is \<open>rootPath\<close> exactly when the label is the Global one.
\<close>

theorem getAllocatorPath_rootPath:
  "(dc = GlobalDCLocation E \<longrightarrow> getAllocatorPath E m dc = rootPath m) \<and>
   (dc \<noteq> GlobalDCLocation E \<longrightarrow> getAllocatorPath E m dc = path_Join [rootPath m, dc]) \<and>
   (plain_label dc \<longrightarrow>
      (getAllocatorPath E m dc = rootPath m \<longleftrightarrow> dc = GlobalDCLocation E))"
  using path_Join_plain_label [of dc "rootPath m"]
  by (simp add: getAllocatorPath_def)

theorem getAllocatorPath_rootPath_witness:
  "getAllocatorPath env_ok demo_manager ''global'' = ''/pd/tso'' \<and>
   plain_label ''dc-1'' \<and> ''dc-1'' \<noteq> GlobalDCLocation env_ok \<and>
   getAllocatorPath env_ok demo_manager ''dc-1'' = ''/pd/tso/dc-1'' \<and>
   getAllocatorPath env_ok demo_manager ''dc-1'' \<noteq> rootPath demo_manager"
proof -
  have g: "GlobalDCLocation env_ok = ''global''"
    by (simp add: env_ok_def)
  have r: "rootPath demo_manager = ''/pd/tso''"
    by (simp add: demo_manager_def NewAllocatorManager_def)
  have pl: "plain_label ''dc-1''"
    by (simp add: plain_label_def)
  show ?thesis
    using pl
      getAllocatorPath_rootPath [of "''global''" env_ok demo_manager]
      getAllocatorPath_rootPath [of "''dc-1''" env_ok demo_manager]
    by (simp add: g r path_Join_demo)
qed

end
